theory Spec2Isabelle
  imports Main "HOL-Library.AList"
begin

section \<open>Strings as the metadata code uses them\<close>

text \<open>
  A JavaScript string is modelled as a \<^typ>\<open>string\<close>, one \<^typ>\<open>char\<close> per code unit, for
  code units below 256. The metadata files are read and written as UTF-8, which
  returns the very string that was written.
\<close>

text \<open>\<^verbatim>\<open>String.prototype.trim\<close> strips white space and line terminators: among the code
  units below 256 these are TAB, LF, VT, FF, CR, space and the no-break space.\<close>

definition isWhiteSpace :: "char \<Rightarrow> bool" where
  "isWhiteSpace c \<longleftrightarrow>
     c = CHR 0x09 \<or> c = CHR 0x0A \<or> c = CHR 0x0B \<or> c = CHR 0x0C \<or> c = CHR 0x0D
     \<or> c = CHR '' '' \<or> c = CHR 0xA0"

definition trim :: "string \<Rightarrow> string" where
  "trim s = rev (dropWhile isWhiteSpace (rev (dropWhile isWhiteSpace s)))"

text \<open>\<^verbatim>\<open>s.split("\n")\<close>: the pieces between line feeds; the empty string gives one
  empty piece.\<close>

fun split_nl :: "string \<Rightarrow> string list" where
  "split_nl [] = [] # []"
| "split_nl (c # cs) =
     (if c = CHR 0x0A then [] # split_nl cs
      else (case split_nl cs of [] \<Rightarrow> [c] # [] | l # ls \<Rightarrow> (c # l) # ls))"

text \<open>\<^verbatim>\<open>xs.join("\n")\<close>.\<close>

fun join_nl :: "string list \<Rightarrow> string" where
  "join_nl [] = []"
| "join_nl [x] = x"
| "join_nl (x # y # ys) = x @ [CHR 0x0A] @ join_nl (y # ys)"

definition startsWith :: "string \<Rightarrow> string \<Rightarrow> bool" where
  "startsWith s p \<longleftrightarrow> take (length p) s = p"

definition endsWith :: "string \<Rightarrow> string \<Rightarrow> bool" where
  "endsWith s p \<longleftrightarrow> length p \<le> length s \<and> drop (length s - length p) s = p"

section \<open>Plain objects used as string records\<close>

text \<open>
  A \<^verbatim>\<open>Record<string, string>\<close> is an association list with one entry per own
  property, in insertion order (the reordering of integer-like keys by the
  engine is not modelled; the lookups below do not depend on it).
  An assignment \<^verbatim>\<open>obj[key] = value\<close> to the key \<^verbatim>\<open>__proto__\<close> reaches the
  setter inherited from \<^verbatim>\<open>Object.prototype\<close>, which ignores a string value: no own
  property is created.
\<close>

type_synonym obj = "(string \<times> string) list"

definition obj_set :: "string \<Rightarrow> string \<Rightarrow> obj \<Rightarrow> obj" where
  "obj_set k v ob = (if k = ''__proto__'' then ob else AList.update k v ob)"

definition obj_get :: "obj \<Rightarrow> string \<Rightarrow> string option" where
  "obj_get ob k = map_of ob k"

section \<open>metadata.ts: the record format\<close>

text \<open>One iteration of the loop of \<^verbatim>\<open>parseMetadataFile\<close>.\<close>

definition parse_line :: "obj \<Rightarrow> string \<Rightarrow> obj" where
  "parse_line result line =
     (let trimmed = trim line in
      if trimmed = [] \<or> startsWith trimmed ''#'' then result
      else if CHR ''='' \<notin> set trimmed then result
      else
        let key = trim (takeWhile (\<lambda>c. c \<noteq> CHR ''='') trimmed);
            val = trim (tl (dropWhile (\<lambda>c. c \<noteq> CHR ''='') trimmed))
        in if key \<noteq> [] then obj_set key val result else result)"

definition parseMetadataFile :: "string \<Rightarrow> obj" where
  "parseMetadataFile content = foldl parse_line [] (split_nl content)"

definition serializeMetadata :: "obj \<Rightarrow> string" where
  "serializeMetadata data =
     join_nl (map (\<lambda>(k, v). k @ ''='' @ v) (filter (\<lambda>(k, v). v \<noteq> []) data)) @ [CHR 0x0A]"

section \<open>metadata.ts: the data directory\<close>

text \<open>
  The data directory is absent or a directory; an entry of a directory is a
  regular file with its content, or a directory. The file system is a POSIX one that
  compares names exactly. Symbolic links, permissions and failures of the disk are not
  modelled, and the path of the data directory itself is short. \<^verbatim>\<open>readdirSync\<close> gives the
  names in the order of the list.
\<close>

datatype node = File string | Dir "(string \<times> node) list"

type_synonym dir = "(string \<times> node) list"

type_synonym store = "dir option"

datatype error = InvalidSessionId | FsError string

text \<open>A metadata file is at \<^verbatim>\<open>{dataDir}/{sessionId}\<close> or at
  \<^verbatim>\<open>{dataDir}/{entry}/{sessionId}\<close>.\<close>

datatype path = Flat string | Sub string string

fun isFile :: "node option \<Rightarrow> bool" where
  "isFile (Some (File c)) = True"
| "isFile _ = False"

fun isDirectory :: "node option \<Rightarrow> bool" where
  "isDirectory (Some (Dir es)) = True"
| "isDirectory _ = False"

text \<open>
  A file name has at most \<^verbatim>\<open>NAME_MAX\<close> bytes, 255 on the file systems in use. The bytes
  are those of the UTF-8 form of the name: one for a code unit below 128, two for the
  others below 256. Every system call on a path with a longer name fails with
  \<^verbatim>\<open>ENAMETOOLONG\<close>, whatever the directory holds.
\<close>

definition NAME_MAX :: nat where
  "NAME_MAX = 255"

definition byte_length :: "string \<Rightarrow> nat" where
  "byte_length n = sum_list (map (\<lambda>c. if of_char c < (128::nat) then 1 else 2) n)"

definition name_too_long :: "string \<Rightarrow> bool" where
  "name_too_long n \<longleftrightarrow> NAME_MAX < byte_length n"

fun path_too_long :: "path \<Rightarrow> bool" where
  "path_too_long (Flat n) = name_too_long n"
| "path_too_long (Sub e n) = (name_too_long e \<or> name_too_long n)"

text \<open>What the file system finds under a name in a directory; nothing under a name that is
  too long.\<close>

definition lookup :: "dir \<Rightarrow> string \<Rightarrow> node option" where
  "lookup d n = (if name_too_long n then None else map_of d n)"

text \<open>\<^verbatim>\<open>statSync(path)\<close>, and \<^verbatim>\<open>existsSync(path)\<close> as \<^verbatim>\<open>node_at d p \<noteq> None\<close>: a path that
  cannot be resolved has no node (\<^verbatim>\<open>existsSync\<close> is false, \<^verbatim>\<open>statSync\<close> throws and the
  callers catch it).\<close>

fun node_at :: "dir \<Rightarrow> path \<Rightarrow> node option" where
  "node_at d (Flat n) = lookup d n"
| "node_at d (Sub e n) =
     (case lookup d e of Some (Dir es) \<Rightarrow> lookup es n | _ \<Rightarrow> None)"

text \<open>\<^verbatim>\<open>readFileSync(path, "utf-8")\<close>.\<close>

definition readFileSync :: "dir \<Rightarrow> path \<Rightarrow> error + string" where
  "readFileSync d p =
     (if path_too_long p then Inl (FsError ''ENAMETOOLONG'')
      else
        (case node_at d p of
           Some (File c) \<Rightarrow> Inr c
         | Some (Dir es) \<Rightarrow> Inl (FsError ''EISDIR'')
         | None \<Rightarrow> Inl (FsError ''ENOENT'')))"

text \<open>\<^verbatim>\<open>writeFileSync(path, content, "utf-8")\<close>: creates the file or replaces its
  content; the directory that holds it must exist, and no name of the path may be too
  long.\<close>

fun writeFileSync :: "dir \<Rightarrow> path \<Rightarrow> string \<Rightarrow> error + dir" where
  "writeFileSync d (Flat n) c =
     (if name_too_long n then Inl (FsError ''ENAMETOOLONG'')
      else if isDirectory (map_of d n) then Inl (FsError ''EISDIR'')
      else Inr (AList.update n (File c) d))"
| "writeFileSync d (Sub e n) c =
     (if name_too_long e \<or> name_too_long n then Inl (FsError ''ENAMETOOLONG'')
      else
        (case map_of d e of
           Some (Dir es) \<Rightarrow>
             (if isDirectory (map_of es n) then Inl (FsError ''EISDIR'')
              else Inr (AList.update e (Dir (AList.update n (File c) es)) d))
         | Some (File x) \<Rightarrow> Inl (FsError ''ENOTDIR'')
         | None \<Rightarrow> Inl (FsError ''ENOENT'')))"

text \<open>The entries of the data directory; there are none when it does not exist.\<close>

definition entries :: "store \<Rightarrow> dir" where
  "entries s = (case s of None \<Rightarrow> [] | Some d \<Rightarrow> d)"

text \<open>\<^verbatim>\<open>mkdirSync(dirname(path), { recursive: true })\<close> for a path directly in the data
  directory: afterwards the data directory exists, with the entries it had.\<close>

definition mkdirSync :: "store \<Rightarrow> store" where
  "mkdirSync s = Some (entries s)"

text \<open>\<^verbatim>\<open>openSync(path, O_WRONLY | O_CREAT | O_EXCL)\<close> followed by \<^verbatim>\<open>closeSync\<close>, inside
  the \<^verbatim>\<open>try\<close> of \<^verbatim>\<open>reserveSessionId\<close>: one atomic step of the file system that
  creates an empty file when the name is not too long and no entry has it, and fails
  otherwise: \<^verbatim>\<open>ENOENT\<close> without the directory, \<^verbatim>\<open>ENAMETOOLONG\<close>, \<^verbatim>\<open>EEXIST\<close>. The \<^verbatim>\<open>catch\<close>
  turns every failure into \<^verbatim>\<open>false\<close>.\<close>

definition open_excl :: "store \<Rightarrow> string \<Rightarrow> store \<times> bool" where
  "open_excl s n =
     (case s of
        None \<Rightarrow> (None, False)
      | Some d \<Rightarrow>
          (if name_too_long n then (Some d, False)
           else if map_of d n = None then (Some (d @ [(n, File [])]), True)
           else (Some d, False)))"

section \<open>metadata.ts: session IDs and paths\<close>

definition idChar :: "char \<Rightarrow> bool" where
  "idChar c \<longleftrightarrow>
     c \<in> set (''abcdefghijklmnopqrstuvwxyz'' @ ''ABCDEFGHIJKLMNOPQRSTUVWXYZ''
               @ ''0123456789'' @ ''_-'')"

text \<open>\<^verbatim>\<open>/^[a-zA-Z0-9_-]+$/.test(sessionId)\<close>.\<close>

definition VALID_SESSION_ID :: "string \<Rightarrow> bool" where
  "VALID_SESSION_ID sid \<longleftrightarrow> sid \<noteq> [] \<and> list_all idChar sid"

definition validateSessionId :: "string \<Rightarrow> error + unit" where
  "validateSessionId sid = (if VALID_SESSION_ID sid then Inr () else Inl InvalidSessionId)"

definition metadataPath :: "string \<Rightarrow> error + path" where
  "metadataPath sid =
     (case validateSessionId sid of Inl e \<Rightarrow> Inl e | Inr u \<Rightarrow> Inr (Flat sid))"

text \<open>The loop of \<^verbatim>\<open>resolveMetadataPath\<close> over \<^verbatim>\<open>readdirSync(dataDir)\<close>.\<close>

fun find_in_subdirs :: "dir \<Rightarrow> string \<Rightarrow> string list \<Rightarrow> path option" where
  "find_in_subdirs d sid [] = None"
| "find_in_subdirs d sid (entry # rest) =
     (if \<not> endsWith entry ''-sessions'' then find_in_subdirs d sid rest
      else if isFile (node_at d (Sub entry sid)) then Some (Sub entry sid)
      else find_in_subdirs d sid rest)"

definition resolveMetadataPath :: "store \<Rightarrow> string \<Rightarrow> error + path option" where
  "resolveMetadataPath s sid =
     (case validateSessionId sid of
        Inl e \<Rightarrow> Inl e
      | Inr u \<Rightarrow>
          (case s of
             None \<Rightarrow> Inr None
           | Some d \<Rightarrow>
               if isFile (node_at d (Flat sid)) then Inr (Some (Flat sid))
               else Inr (find_in_subdirs d sid (map fst d))))"

section \<open>metadata.ts: the operations of the store\<close>

record SessionMetadata =
  worktree :: string
  branch :: string
  status :: string
  issue :: "string option"
  pr :: "string option"
  summary :: "string option"
  project :: "string option"
  createdAt :: "string option"
  runtimeHandle :: "string option"

text \<open>\<^verbatim>\<open>raw[key] ?? dflt\<close>.\<close>

definition nullish :: "string option \<Rightarrow> string \<Rightarrow> string" where
  "nullish v dflt = (case v of None \<Rightarrow> dflt | Some x \<Rightarrow> x)"

text \<open>The object literal that \<^verbatim>\<open>readMetadata\<close> returns.\<close>

definition metadata_of_raw :: "obj \<Rightarrow> SessionMetadata" where
  "metadata_of_raw raw =
     \<lparr> worktree = nullish (obj_get raw ''worktree'') [],
       branch = nullish (obj_get raw ''branch'') [],
       status = nullish (obj_get raw ''status'') ''unknown'',
       issue = obj_get raw ''issue'',
       pr = obj_get raw ''pr'',
       summary = obj_get raw ''summary'',
       project = obj_get raw ''project'',
       createdAt = obj_get raw ''createdAt'',
       runtimeHandle = obj_get raw ''runtimeHandle'' \<rparr>"

definition readMetadata :: "store \<Rightarrow> string \<Rightarrow> error + SessionMetadata option" where
  "readMetadata s sid =
     (case resolveMetadataPath s sid of
        Inl e \<Rightarrow> Inl e
      | Inr None \<Rightarrow> Inr None
      | Inr (Some p) \<Rightarrow>
          (case readFileSync (entries s) p of
             Inl e \<Rightarrow> Inl e
           | Inr content \<Rightarrow> Inr (Some (metadata_of_raw (parseMetadataFile content)))))"

definition readMetadataRaw :: "store \<Rightarrow> string \<Rightarrow> error + obj option" where
  "readMetadataRaw s sid =
     (case resolveMetadataPath s sid of
        Inl e \<Rightarrow> Inl e
      | Inr None \<Rightarrow> Inr None
      | Inr (Some p) \<Rightarrow>
          (case readFileSync (entries s) p of
             Inl e \<Rightarrow> Inl e
           | Inr content \<Rightarrow> Inr (Some (parseMetadataFile content))))"

text \<open>\<^verbatim>\<open>if (metadata.field) data["field"] = metadata.field\<close>: an absent or empty
  field is skipped.\<close>

definition set_if_truthy :: "string \<Rightarrow> string option \<Rightarrow> obj \<Rightarrow> obj" where
  "set_if_truthy k v data =
     (case v of None \<Rightarrow> data | Some x \<Rightarrow> if x = [] then data else obj_set k x data)"

definition metadata_data :: "SessionMetadata \<Rightarrow> obj" where
  "metadata_data m =
     set_if_truthy ''runtimeHandle'' (runtimeHandle m)
       (set_if_truthy ''createdAt'' (createdAt m)
         (set_if_truthy ''project'' (project m)
           (set_if_truthy ''summary'' (summary m)
             (set_if_truthy ''pr'' (pr m)
               (set_if_truthy ''issue'' (issue m)
                 [(''worktree'', worktree m), (''branch'', branch m), (''status'', status m)])))))"

definition writeMetadata :: "store \<Rightarrow> string \<Rightarrow> SessionMetadata \<Rightarrow> error + store" where
  "writeMetadata s sid m =
     (case metadataPath sid of
        Inl e \<Rightarrow> Inl e
      | Inr p \<Rightarrow>
          (case writeFileSync (entries (mkdirSync s)) p (serializeMetadata (metadata_data m)) of
             Inl e \<Rightarrow> Inl e
           | Inr d \<Rightarrow> Inr (Some d)))"

text \<open>The merge loop of \<^verbatim>\<open>updateMetadata\<close> over \<^verbatim>\<open>Object.entries(updates)\<close>; a value
  \<^verbatim>\<open>undefined\<close> is \<^const>\<open>None\<close>.\<close>

fun merge_updates :: "obj \<Rightarrow> (string \<times> string option) list \<Rightarrow> obj" where
  "merge_updates existing [] = existing"
| "merge_updates existing ((key, v) # rest) =
     (case v of
        None \<Rightarrow> merge_updates existing rest
      | Some x \<Rightarrow>
          if x = [] then merge_updates (AList.delete key existing) rest
          else merge_updates (obj_set key x existing) rest)"

text \<open>\<^verbatim>\<open>existsSync(path)\<close> guards the read in \<^verbatim>\<open>updateMetadata\<close>.\<close>

definition read_existing :: "dir \<Rightarrow> path \<Rightarrow> error + obj" where
  "read_existing d p =
     (if node_at d p = None then Inr []
      else (case readFileSync d p of
              Inl e \<Rightarrow> Inl e
            | Inr content \<Rightarrow> Inr (parseMetadataFile content)))"

definition updateMetadata ::
  "store \<Rightarrow> string \<Rightarrow> (string \<times> string option) list \<Rightarrow> error + store" where
  "updateMetadata s sid updates =
     (case resolveMetadataPath s sid of
        Inl e \<Rightarrow> Inl e
      | Inr r \<Rightarrow>
          let p = (case r of Some q \<Rightarrow> q | None \<Rightarrow> Flat sid);
              d = entries s
          in (case read_existing d p of
                Inl e \<Rightarrow> Inl e
              | Inr existing \<Rightarrow>
                  (case writeFileSync (entries (mkdirSync s)) p
                          (serializeMetadata (merge_updates existing updates)) of
                     Inl e \<Rightarrow> Inl e
                   | Inr d' \<Rightarrow> Inr (Some d'))))"

text \<open>\<^verbatim>\<open>seen.add(name)\<close> on a \<^verbatim>\<open>Set\<close>, which keeps the order of first insertion.\<close>

definition set_add :: "string list \<Rightarrow> string \<Rightarrow> string list" where
  "set_add seen x = (if x \<in> set seen then seen else seen @ [x])"

text \<open>The inner loop of \<^verbatim>\<open>listMetadata\<close> over the entries of a project
  subdirectory.\<close>

definition list_sub_entry :: "dir \<Rightarrow> string list \<Rightarrow> string \<Rightarrow> string list" where
  "list_sub_entry es seen entry =
     (if entry = ''archive'' \<or> startsWith entry ''.'' then seen
      else if \<not> VALID_SESSION_ID entry then seen
      else if isFile (lookup es entry) then set_add seen entry
      else seen)"

text \<open>The outer loop of \<^verbatim>\<open>listMetadata\<close> over the entries of the data directory.\<close>

definition list_entry :: "dir \<Rightarrow> string list \<Rightarrow> string \<Rightarrow> string list" where
  "list_entry d seen name =
     (if name = ''archive'' \<or> startsWith name ''.'' then seen
      else
        (case lookup d name of
           Some (File c) \<Rightarrow> if VALID_SESSION_ID name then set_add seen name else seen
         | Some (Dir es) \<Rightarrow>
             if endsWith name ''-sessions'' then foldl (list_sub_entry es) seen (map fst es)
             else seen
         | None \<Rightarrow> seen))"

definition listMetadata :: "store \<Rightarrow> string list" where
  "listMetadata s =
     (case s of None \<Rightarrow> [] | Some d \<Rightarrow> foldl (list_entry d) [] (map fst d))"

definition reserveSessionId :: "store \<Rightarrow> string \<Rightarrow> error + store \<times> bool" where
  "reserveSessionId s sid =
     (case metadataPath sid of
        Inl e \<Rightarrow> Inl e
      | Inr p \<Rightarrow> Inr (open_excl (mkdirSync s) sid))"

section \<open>Well-formed keys and values of the record format\<close>

text \<open>A string that \<^const>\<open>trim\<close> leaves as it is: empty, or with no white space at
  either end.\<close>

definition trimmed :: "string \<Rightarrow> bool" where
  "trimmed s \<longleftrightarrow> s = [] \<or> (\<not> isWhiteSpace (hd s) \<and> \<not> isWhiteSpace (last s))"

text \<open>A key that survives a line of the file: not empty, no white space at
  either end, no \<^verbatim>\<open>=\<close> and no line feed in it, not starting a comment, and not the
  name \<^verbatim>\<open>__proto__\<close>.\<close>

definition clean_key :: "string \<Rightarrow> bool" where
  "clean_key k \<longleftrightarrow>
     k \<noteq> [] \<and> trimmed k \<and> CHR ''='' \<notin> set k \<and> CHR 0x0A \<notin> set k
     \<and> hd k \<noteq> CHR ''#'' \<and> k \<noteq> ''__proto__''"

text \<open>A value that survives a line of the file: no line feed in it and no white
  space at either end.\<close>

definition clean_value :: "string \<Rightarrow> bool" where
  "clean_value v \<longleftrightarrow> trimmed v \<and> CHR 0x0A \<notin> set v"

definition clean_obj :: "obj \<Rightarrow> bool" where
  "clean_obj ob \<longleftrightarrow>
     distinct (map fst ob) \<and> list_all (\<lambda>(k, v). clean_key k \<and> clean_value v) ob"

text \<open>A value as a record holds it after a write: an empty value is no value.\<close>

definition nonempty :: "string option \<Rightarrow> string option" where
  "nonempty v = (case v of None \<Rightarrow> None | Some x \<Rightarrow> if x = [] then None else Some x)"

definition clean_opt :: "string option \<Rightarrow> bool" where
  "clean_opt v = (case v of None \<Rightarrow> True | Some x \<Rightarrow> clean_value x)"

definition clean_metadata :: "SessionMetadata \<Rightarrow> bool" where
  "clean_metadata m \<longleftrightarrow>
     clean_value (worktree m) \<and> clean_value (branch m) \<and> clean_value (status m)
     \<and> clean_opt (issue m) \<and> clean_opt (pr m) \<and> clean_opt (summary m)
     \<and> clean_opt (project m) \<and> clean_opt (createdAt m) \<and> clean_opt (runtimeHandle m)"

text \<open>\<^verbatim>\<open>writeMetadata(dataDir, id, m)\<close> followed by \<^verbatim>\<open>readMetadata(dataDir, id)\<close>.\<close>

definition write_then_read ::
  "store \<Rightarrow> string \<Rightarrow> SessionMetadata \<Rightarrow> error + SessionMetadata option" where
  "write_then_read s sid m =
     (case writeMetadata s sid m of Inl e \<Rightarrow> Inl e | Inr s' \<Rightarrow> readMetadata s' sid)"

section \<open>Concurrent callers of reserveSessionId\<close>

text \<open>
  Callers, numbered, run \<^verbatim>\<open>reserveSessionId\<close> on one session ID over one data
  directory. Each caller takes two atomic steps on the file system, in its own order:
  the \<^verbatim>\<open>mkdirSync\<close>, then the exclusive \<^verbatim>\<open>openSync\<close> that decides what it returns. A
  schedule lists the callers in the order in which their steps happen; a caller that has
  returned takes no further step.
\<close>

record race =
  disk :: store
  pc :: "nat \<Rightarrow> nat"
  returned :: "nat \<Rightarrow> bool option"

definition race_init :: "store \<Rightarrow> race" where
  "race_init s = \<lparr> disk = s, pc = (\<lambda>c. 0), returned = (\<lambda>c. None) \<rparr>"

definition race_step :: "string \<Rightarrow> race \<Rightarrow> nat \<Rightarrow> race" where
  "race_step sid r c =
     (if pc r c = 0 then
        \<lparr> disk = mkdirSync (disk r), pc = (pc r)(c := 1), returned = returned r \<rparr>
      else if pc r c = 1 then
        \<lparr> disk = fst (open_excl (disk r) sid), pc = (pc r)(c := 2),
          returned = (returned r)(c := Some (snd (open_excl (disk r) sid))) \<rparr>
      else r)"

definition run_race :: "string \<Rightarrow> store \<Rightarrow> nat list \<Rightarrow> race" where
  "run_race sid s schedule = foldl (race_step sid) (race_init s) schedule"

text \<open>\<^verbatim>\<open>updateMetadata(dataDir, id, updates)\<close> followed by
  \<^verbatim>\<open>readMetadataRaw(dataDir, id)\<close>.\<close>

definition update_then_read ::
  "store \<Rightarrow> string \<Rightarrow> (string \<times> string option) list \<Rightarrow> error + obj option" where
  "update_then_read s sid updates =
     (case updateMetadata s sid updates of Inl e \<Rightarrow> Inl e | Inr s' \<Rightarrow> readMetadataRaw s' sid)"

section \<open>The two layouts of the data directory\<close>

text \<open>A record of the session in the flat layout, \<^verbatim>\<open>{dataDir}/{sessionId}\<close>.\<close>

definition flat_record :: "dir \<Rightarrow> string \<Rightarrow> bool" where
  "flat_record d sid \<longleftrightarrow> isFile (node_at d (Flat sid))"

text \<open>A record of the session in the project subdirectory \<^verbatim>\<open>e\<close>,
  \<^verbatim>\<open>{dataDir}/{e}/{sessionId}\<close> with \<^verbatim>\<open>e\<close> ending in \<^verbatim>\<open>-sessions\<close>.\<close>

definition sub_record :: "dir \<Rightarrow> string \<Rightarrow> string \<Rightarrow> bool" where
  "sub_record d e sid \<longleftrightarrow> endsWith e ''-sessions'' \<and> isFile (node_at d (Sub e sid))"

text \<open>What one entry of the data directory adds to the listing.\<close>

definition entry_ids :: "dir \<Rightarrow> string \<Rightarrow> string set" where
  "entry_ids d e =
     {n. e \<noteq> ''archive'' \<and> \<not> startsWith e ''.'' \<and> VALID_SESSION_ID n \<and> n \<noteq> ''archive''
         \<and> ((n = e \<and> flat_record d n) \<or> sub_record d e n)}"

section \<open>runtime-tmux: sendMessage\<close>

text \<open>
  What \<^verbatim>\<open>sendMessage\<close> does to the outside world, in order: calls of \<^verbatim>\<open>isBusy\<close>, sleeps
  (in milliseconds), \<^verbatim>\<open>tmux\<close> commands with their arguments, and the temporary file of a
  long message.
\<close>

datatype event =
    IsBusy string
  | Sleep nat
  | Tmux "string list"
  | WriteTmp string string
  | UnlinkTmp string

text \<open>
  The outside world as \<^verbatim>\<open>sendMessage\<close> meets it: the verdict of the \<^verbatim>\<open>k\<close>-th call of
  \<^verbatim>\<open>isBusy\<close> (which captures the pane, and is false when the capture fails), whether the
  \<^verbatim>\<open>tmux\<close> command issued after \<^verbatim>\<open>n\<close> events is rejected, and the path made from
  \<^verbatim>\<open>tmpdir()\<close> and \<^verbatim>\<open>randomUUID()\<close>.
\<close>

record tmux_env =
  busy :: "nat \<Rightarrow> bool"
  tmux_fails :: "nat \<Rightarrow> string list \<Rightarrow> bool"
  tmpPath :: string

text \<open>The errors that reject the promise of \<^verbatim>\<open>sendMessage\<close>: a failed \<^verbatim>\<open>tmux\<close> command, or
  the error thrown at the end, "Session ... was still busy after ...s - message sent but
  may be lost".\<close>

datatype send_error = TmuxError "string list" | StillBusy string nat

text \<open>The events so far, and the error once one is thrown.\<close>

type_synonym run = "event list \<times> send_error option"

definition maxWait :: nat where
  "maxWait = 60"

definition pollInterval :: nat where
  "pollInterval = 2"

text \<open>
  \<^verbatim>\<open>for (let waited = 0; waited < maxWait; waited += pollInterval) { busy = await
  isBusy(handle.id); if (!busy) break; await sleep(pollInterval * 1000); }\<close>, started
  with \<^verbatim>\<open>waited\<close>, the number of polls made, \<^verbatim>\<open>busy\<close> and the events so far; it gives
  the events and what \<^verbatim>\<open>busy\<close> is at the end.
\<close>

function busy_wait ::
  "tmux_env \<Rightarrow> string \<Rightarrow> nat \<Rightarrow> nat \<Rightarrow> bool \<Rightarrow> event list \<Rightarrow> event list \<times> bool" where
  "busy_wait env h waited k b evs =
     (if waited < maxWait then
        (if \<not> busy env k then (evs @ [IsBusy h], False)
         else busy_wait env h (waited + pollInterval) (k + 1) True
                (evs @ [IsBusy h, Sleep (pollInterval * 1000)]))
      else (evs, b))"
  by pat_completeness auto
termination
  by (relation "measure (\<lambda>(env, h, waited, k, b, evs). maxWait - waited)")
    (auto simp: maxWait_def pollInterval_def)

declare busy_wait.simps [simp del]

text \<open>\<^verbatim>\<open>await tmux(...args)\<close>: skipped once an error is thrown; the command is issued and may
  be rejected.\<close>

definition tmux :: "tmux_env \<Rightarrow> string list \<Rightarrow> run \<Rightarrow> run" where
  "tmux env args r =
     (case snd r of
        Some e \<Rightarrow> r
      | None \<Rightarrow> (fst r @ [Tmux args],
                 if tmux_fails env (length (fst r)) args then Some (TmuxError args) else None))"

text \<open>\<^verbatim>\<open>await sleep(ms)\<close>.\<close>

definition sleep :: "nat \<Rightarrow> run \<Rightarrow> run" where
  "sleep ms r = (case snd r of Some e \<Rightarrow> r | None \<Rightarrow> (fst r @ [Sleep ms], None))"

text \<open>The branch for long or multiline messages: the message is written to a temporary
  file, loaded into a buffer and pasted; the \<^verbatim>\<open>finally\<close> removes the file also when a
  command has failed.\<close>

definition paste_message :: "tmux_env \<Rightarrow> string \<Rightarrow> string \<Rightarrow> run \<Rightarrow> run" where
  "paste_message env h message r =
     (case snd r of
        Some e \<Rightarrow> r
      | None \<Rightarrow>
          let r1 = (fst r @ [WriteTmp (tmpPath env) message], None);
              r2 = tmux env [''load-buffer'', tmpPath env] r1;
              r3 = tmux env [''paste-buffer'', ''-t'', h] r2
          in (fst r3 @ [UnlinkTmp (tmpPath env)], snd r3))"

definition sendMessage :: "tmux_env \<Rightarrow> string \<Rightarrow> string \<Rightarrow> run" where
  "sendMessage env h message =
     (let w = busy_wait env h 0 0 False [];
          sentWhileBusy = snd w;
          r1 = tmux env [''send-keys'', ''-t'', h, ''C-u''] (fst w, None);
          r2 = sleep 200 r1;
          r3 = (if CHR 0x0A \<in> set message \<or> length message > 200
                then paste_message env h message r2
                else tmux env [''send-keys'', ''-t'', h, message] r2);
          r4 = sleep 300 r3;
          r5 = tmux env [''send-keys'', ''-t'', h, ''Enter''] r4
      in if snd r5 = None \<and> sentWhileBusy then (fst r5, Some (StillBusy h maxWait)) else r5)"

text \<open>The events that inject a message when no command fails.\<close>

definition inject_events :: "tmux_env \<Rightarrow> string \<Rightarrow> string \<Rightarrow> event list" where
  "inject_events env h message =
     (if CHR 0x0A \<in> set message \<or> length message > 200
      then [WriteTmp (tmpPath env) message, Tmux [''load-buffer'', tmpPath env],
            Tmux [''paste-buffer'', ''-t'', h], UnlinkTmp (tmpPath env)]
      else [Tmux [''send-keys'', ''-t'', h, message]])"

text \<open>The milliseconds slept in a list of events.\<close>

fun slept :: "event list \<Rightarrow> nat" where
  "slept [] = 0"
| "slept (Sleep ms # es) = ms + slept es"
| "slept (e # es) = slept es"

text \<open>The calls of \<^verbatim>\<open>isBusy\<close> in a list of events.\<close>

fun polls :: "event list \<Rightarrow> nat" where
  "polls [] = 0"
| "polls (IsBusy h # es) = Suc (polls es)"
| "polls (e # es) = polls es"

text \<open>The events of a wait that meets a busy session \<^verbatim>\<open>n\<close> times in a row.\<close>

definition busy_rounds :: "string \<Rightarrow> nat \<Rightarrow> event list" where
  "busy_rounds h n = concat (replicate n [IsBusy h, Sleep 2000])"

text \<open>Every step after the wait appends events that are not polls, and keeps an error.\<close>

definition extends :: "run \<Rightarrow> run \<Rightarrow> bool" where
  "extends r r' \<longleftrightarrow>
     (\<exists>es. fst r' = fst r @ es \<and> polls es = 0) \<and> (snd r \<noteq> None \<longrightarrow> snd r' \<noteq> None)"

section \<open>The send command of the CLI: confirming the delivery\<close>

text \<open>\<^verbatim>\<open>haystack.includes(needle)\<close>.\<close>

fun includes_str :: "string \<Rightarrow> string \<Rightarrow> bool" where
  "includes_str [] needle = (needle = [])"
| "includes_str (c # cs) needle = (startsWith (c # cs) needle \<or> includes_str cs needle)"

text \<open>
  The outside world as the end of the send command meets it: the pane output that the
  \<^verbatim>\<open>k\<close>-th \<^verbatim>\<open>captureOutput(10)\<close> of the loop returns (the empty string when the capture
  fails), and \<^verbatim>\<open>detectActivity\<close> of the agent plugin of the session, which gives an
  activity state as a string.
\<close>

record send_env =
  capture :: "nat \<Rightarrow> string"
  detectActivity :: "string \<Rightarrow> string"

definition isActive :: "send_env \<Rightarrow> string \<Rightarrow> bool" where
  "isActive env terminalOutput \<longleftrightarrow> detectActivity env terminalOutput = ''active''"

definition hasQueuedMessage :: "string \<Rightarrow> bool" where
  "hasQueuedMessage terminalOutput \<longleftrightarrow>
     includes_str terminalOutput ''Press up to edit queued messages''"

text \<open>What the command reports at its end: "Message sent and processing", "Message queued
  (session finishing previous task)", or "Message sent - could not confirm it was
  received".\<close>

datatype delivery = Processing | Queued | Unconfirmed

text \<open>
  \<^verbatim>\<open>for (let attempt = 1; attempt <= 3; attempt++) { await sleep(2000); const output =
  await captureOutput(10); if (isActive(agent, output)) return; if
  (hasQueuedMessage(output)) return; if (attempt < 3) { await tmux("send-keys", "-t",
  tmuxTarget, "Enter"); await sleep(1000); } }\<close>, from the value of \<^verbatim>\<open>attempt\<close>, the number
  of captures made and the events so far. The \<^verbatim>\<open>tmux\<close> helper of the CLI never throws.
\<close>

function verifyDelivery ::
  "send_env \<Rightarrow> string \<Rightarrow> nat \<Rightarrow> nat \<Rightarrow> event list \<Rightarrow> event list \<times> delivery" where
  "verifyDelivery env tmuxTarget attempt k evs =
     (if attempt \<le> 3 then
        (if isActive env (capture env k) then
           (evs @ [Sleep 2000, Tmux [''capture-pane'', ''-t'', tmuxTarget, ''-p'', ''-S'', ''-10'']],
            Processing)
         else if hasQueuedMessage (capture env k) then
           (evs @ [Sleep 2000, Tmux [''capture-pane'', ''-t'', tmuxTarget, ''-p'', ''-S'', ''-10'']],
            Queued)
         else
           verifyDelivery env tmuxTarget (attempt + 1) (k + 1)
             (evs @ [Sleep 2000, Tmux [''capture-pane'', ''-t'', tmuxTarget, ''-p'', ''-S'', ''-10'']]
                  @ (if attempt < 3
                     then [Tmux [''send-keys'', ''-t'', tmuxTarget, ''Enter''], Sleep 1000]
                     else [])))
      else (evs, Unconfirmed))"
  by pat_completeness auto
termination
  by (relation "measure (\<lambda>(env, tmuxTarget, attempt, k, evs). 4 - attempt)") auto

declare verifyDelivery.simps [simp del]

text \<open>The Enter keys sent to a session in a list of events.\<close>

definition enters :: "string \<Rightarrow> event list \<Rightarrow> nat" where
  "enters h es = length (filter (\<lambda>e. e = Tmux [''send-keys'', ''-t'', h, ''Enter'']) es)"

text \<open>A captured pane that ends the confirmation: the agent is active, or a message is
  queued.\<close>

definition settled :: "send_env \<Rightarrow> string \<Rightarrow> bool" where
  "settled env terminalOutput \<longleftrightarrow> isActive env terminalOutput \<or> hasQueuedMessage terminalOutput"

section \<open>The start command: the orchestrator session\<close>

record ProjectConfig =
  project_name :: string
  project_path :: string
  sessionPrefix :: string

text \<open>What the start command reads of a session that the session manager returns.\<close>

record Session =
  session_id :: string
  session_status :: string
  runtimeHandle_id :: "string option"

text \<open>The options of the command: \<^verbatim>\<open>opts.dashboard !== false\<close>, \<^verbatim>\<open>opts.orchestrator !==
  false\<close> and \<^verbatim>\<open>opts.prompt\<close>.\<close>

record start_opts =
  opt_dashboard :: bool
  opt_orchestrator :: bool
  opt_prompt :: "string option"

datatype start_error =
    NoProjects
  | ProjectNotFound string
  | MultipleProjects
  | ProjectPathMissing string
  | DashboardFailed
  | AlreadyRunning string
  | OrchestratorSetupFailed string

text \<open>The calls that matter here: the start and the kill of the dashboard process, and the
  two calls of the session manager, \<^verbatim>\<open>sm.get(sessionId)\<close> and
  \<^verbatim>\<open>sm.spawnOrchestrator({ projectId, systemPrompt, initialPrompt })\<close> (recorded with the
  project and the initial prompt).\<close>

datatype start_event =
    StartDashboard
  | KillDashboard
  | SmGet string
  | SpawnOrchestrator string "string option"

text \<open>
  The outside world of the command: \<^verbatim>\<open>existsSync\<close>, whether the dashboard starts, and the
  session manager, whose code is elsewhere: what \<^verbatim>\<open>get\<close> returns for an ID, and what
  \<^verbatim>\<open>spawnOrchestrator\<close> returns or the message of the error it throws.
\<close>

record start_env =
  pathExists :: "string \<Rightarrow> bool"
  dashboardStarts :: bool
  sm_get :: "string \<Rightarrow> Session option"
  sm_spawnOrchestrator :: "string \<Rightarrow> string option \<Rightarrow> string + Session"

text \<open>A string option in a condition: \<^verbatim>\<open>undefined\<close> and the empty string are false.\<close>

definition truthy :: "string option \<Rightarrow> bool" where
  "truthy v = (case v of None \<Rightarrow> False | Some x \<Rightarrow> x \<noteq> [])"

text \<open>
  \<^verbatim>\<open>config.projects\<close> is a plain object, here the list of its own properties. The look-up
  \<^verbatim>\<open>config.projects[projectArg]\<close> also finds the properties that every plain object
  inherits from \<^verbatim>\<open>Object.prototype\<close>: functions, or the prototype itself under
  \<^verbatim>\<open>__proto__\<close>, all of them truthy and none of them a project configuration.
\<close>

definition prototype_keys :: "string list" where
  "prototype_keys =
     [''constructor'', ''__defineGetter__'', ''__defineSetter__'', ''hasOwnProperty'',
      ''__lookupGetter__'', ''__lookupSetter__'', ''isPrototypeOf'', ''propertyIsEnumerable'',
      ''toString'', ''valueOf'', ''__proto__'', ''toLocaleString'']"

datatype project_value = Configured ProjectConfig | Inherited

definition resolveProject ::
  "(string \<times> ProjectConfig) list \<Rightarrow> string option \<Rightarrow> start_error + string \<times> project_value" where
  "resolveProject projects projectArg =
     (if projects = [] then Inl NoProjects
      else
        (case (if truthy projectArg then projectArg else None) of
           Some a \<Rightarrow>
             (case map_of projects a of
                Some proj \<Rightarrow> Inr (a, Configured proj)
              | None \<Rightarrow>
                  if a \<in> set prototype_keys then Inr (a, Inherited)
                  else Inl (ProjectNotFound a))
         | None \<Rightarrow>
             (case projects of
                [(projectId, proj)] \<Rightarrow> Inr (projectId, Configured proj)
              | _ \<Rightarrow> Inl MultipleProjects)))"

text \<open>\<^verbatim>\<open>exists = existing !== null && !TERMINAL_STATUSES.has(existing.status)\<close>. The set
  \<^verbatim>\<open>TERMINAL_STATUSES\<close> is imported from the core package and is a parameter here.\<close>

definition session_exists :: "string set \<Rightarrow> Session option \<Rightarrow> bool" where
  "session_exists TERMINAL_STATUSES existing =
     (case existing of None \<Rightarrow> False | Some s \<Rightarrow> session_status s \<notin> TERMINAL_STATUSES)"

text \<open>\<^verbatim>\<open>if (session.runtimeHandle?.id) tmuxTarget = session.runtimeHandle.id\<close>.\<close>

definition attach_target :: "string \<Rightarrow> Session \<Rightarrow> string" where
  "attach_target sessionId s =
     (if truthy (runtimeHandle_id s) then nullish (runtimeHandle_id s) sessionId else sessionId)"

text \<open>What the command prints at its end: whether the orchestrator was already running, and
  the tmux target of the attach hint.\<close>

record start_summary =
  already_running :: bool
  tmuxTarget :: string

text \<open>The part of the action that creates the orchestrator session, after the dashboard
  part has left the events \<^verbatim>\<open>evs\<close>.\<close>

definition start_orchestrator ::
  "string set \<Rightarrow> start_env \<Rightarrow> string \<Rightarrow> string \<Rightarrow> start_opts \<Rightarrow> start_event list
     \<Rightarrow> start_event list \<times> (start_error + start_summary)" where
  "start_orchestrator TERMINAL_STATUSES env projectId sessionId opts evs =
     (let existing = sm_get env sessionId;
          exists = session_exists TERMINAL_STATUSES existing
      in if exists \<and> truthy (opt_prompt opts) then
           (evs @ [SmGet sessionId], Inl (AlreadyRunning sessionId))
         else if exists then
           (evs @ [SmGet sessionId],
            Inr \<lparr> already_running = True,
                  tmuxTarget = (case existing of None \<Rightarrow> sessionId
                                | Some s \<Rightarrow> attach_target sessionId s) \<rparr>)
         else
           (let initialPrompt = (if truthy (opt_prompt opts)
                                 then Some ''Start building. Follow your system prompt.''
                                 else None)
            in case sm_spawnOrchestrator env projectId initialPrompt of
                 Inl msg \<Rightarrow>
                   (evs @ [SmGet sessionId, SpawnOrchestrator projectId initialPrompt]
                        @ (if StartDashboard \<in> set evs then [KillDashboard] else []),
                    Inl (OrchestratorSetupFailed msg))
               | Inr session \<Rightarrow>
                   (evs @ [SmGet sessionId, SpawnOrchestrator projectId initialPrompt],
                    Inr \<lparr> already_running = False,
                          tmuxTarget = attach_target sessionId session \<rparr>)))"

text \<open>The action of \<^verbatim>\<open>ao start [project]\<close>, from the loaded configuration to the
  summary. An inherited property has no \<^verbatim>\<open>path\<close>: \<^verbatim>\<open>existsSync(undefined)\<close> is false, and
  the command fails with "Project path does not exist: undefined".\<close>

definition registerStart ::
  "string set \<Rightarrow> start_env \<Rightarrow> (string \<times> ProjectConfig) list \<Rightarrow> string option \<Rightarrow> start_opts
     \<Rightarrow> start_event list \<times> (start_error + start_summary)" where
  "registerStart TERMINAL_STATUSES env projects projectArg opts =
     (case resolveProject projects projectArg of
        Inl e \<Rightarrow> ([], Inl e)
      | Inr (projectId, Inherited) \<Rightarrow> ([], Inl (ProjectPathMissing ''undefined''))
      | Inr (projectId, Configured proj) \<Rightarrow>
          let sessionId = sessionPrefix proj @ ''-orchestrator'' in
          if \<not> pathExists env (project_path proj) then
            ([], Inl (ProjectPathMissing (project_path proj)))
          else if opt_dashboard opts \<and> \<not> dashboardStarts env then
            ([], Inl DashboardFailed)
          else
            let evs = (if opt_dashboard opts then [StartDashboard] else []) in
            if opt_orchestrator opts then
              start_orchestrator TERMINAL_STATUSES env projectId sessionId opts evs
            else (evs, Inr \<lparr> already_running = False, tmuxTarget = sessionId \<rparr>))"

text \<open>The calls of \<^verbatim>\<open>spawnOrchestrator\<close> in a list of events.\<close>

definition spawns :: "start_event list \<Rightarrow> nat" where
  "spawns evs = length (filter (\<lambda>e. case e of SpawnOrchestrator p i \<Rightarrow> True | _ \<Rightarrow> False) evs)"

section \<open>Terminal statuses and the reconciliation tick\<close>

text \<open>Modelled from the spec: the set \<^verbatim>\<open>TERMINAL_STATUSES\<close> is exported by the types module
  of the core package, which is not among the sources at hand; the specification gives
  the terminal subset as merged, killed, done, terminated, cleanup.\<close>

definition TERMINAL_STATUSES :: "string set" where
  "TERMINAL_STATUSES = {''merged'', ''killed'', ''done'', ''terminated'', ''cleanup''}"

text \<open>Modelled from the spec: the signals that one tick gathers for a session from the
  Runtime, Agent and SCM plugins (the Lifecycle Manager, \<^verbatim>\<open>lifecycle-manager.ts\<close>, is not
  among the sources at hand).\<close>

record signals =
  pr_merged :: bool
  pr_closed :: bool
  pr_draft :: bool
  runtime_dead :: bool
  agent_activity :: string
  ci_failing :: bool
  ci_passing :: bool
  review_decision :: string
  merge_conflicts :: bool
  unresolved_threads :: nat
  signal_observed :: bool

text \<open>Modelled from the spec: the precedence rules 1 to 8 of the Lifecycle Manager, first
  match wins, draft pull requests excluded from rules 3 to 6.\<close>

definition determineStatus :: "signals \<Rightarrow> string \<Rightarrow> string" where
  "determineStatus sg current =
     (if pr_merged sg then ''merged''
      else if pr_closed sg then ''done''
      else if runtime_dead sg \<and> agent_activity sg = ''exited'' \<and> current \<notin> TERMINAL_STATUSES
        then ''done''
      else if \<not> pr_draft sg \<and> ci_failing sg then ''ci_failed''
      else if \<not> pr_draft sg \<and> review_decision sg = ''changes_requested''
        then ''changes_requested''
      else if \<not> pr_draft sg \<and> review_decision sg = ''approved'' \<and> ci_passing sg
              \<and> \<not> merge_conflicts sg
        then ''mergeable''
      else if \<not> pr_draft sg \<and> (review_decision sg = ''pending'' \<or> 0 < unresolved_threads sg)
        then ''review_pending''
      else if agent_activity sg = ''waiting_input'' then ''needs_input''
      else if agent_activity sg = ''blocked'' then ''stuck''
      else if signal_observed sg then ''working''
      else ''spawning'')"

text \<open>Modelled from the spec: a session as the loop tracks it, and what a tick does for a
  session: it gathers the signals, persists a changed status and maps the transition to
  a reaction.\<close>

record tracked =
  tracked_id :: string
  tracked_status :: string

datatype tick_event =
    Gather string
  | Persist string string
  | Reaction string string string


definition tick_session :: "(string \<Rightarrow> signals) \<Rightarrow> tracked \<Rightarrow> tracked \<times> tick_event list" where
  "tick_session gather s =
     (let candidate = determineStatus (gather (tracked_id s)) (tracked_status s)
      in if candidate \<noteq> tracked_status s then
           (s\<lparr> tracked_status := candidate \<rparr>,
            [Gather (tracked_id s), Persist (tracked_id s) candidate,
             Reaction (tracked_id s) (tracked_status s) candidate])
         else (s, [Gather (tracked_id s)]))"



section \<open>The session manager as the specification describes it\<close>

text \<open>Modelled from the spec: the Session Manager (\<^verbatim>\<open>session-manager.ts\<close>) is not among the
  sources at hand. Its state is the sessions it has created, by ID, and \<^verbatim>\<open>get(id)\<close>
  returns the session under an ID.\<close>

type_synonym sessions = "(string \<times> Session) list"

text \<open>Modelled from the spec: the session that \<^verbatim>\<open>spawnOrchestrator\<close> creates. It has the
  fixed ID and the handle that the Runtime plugin returns; its status is \<^verbatim>\<open>working\<close>, as
  the architecture notes have it ("write metadata(status=working)").\<close>

definition new_orchestrator :: "string \<Rightarrow> string \<Rightarrow> Session" where
  "new_orchestrator sessionId handle =
     \<lparr> session_id = sessionId, session_status = ''working'', runtimeHandle_id = Some handle \<rparr>"

text \<open>Modelled from the spec: \<^verbatim>\<open>spawnOrchestrator(projectId, systemPrompt, initialPrompt?)\<close>
  "uses the fixed, deterministic ID \<^verbatim>\<open>{project-session-prefix}-orchestrator\<close>. If a live
  (non-terminal) orchestrator session already exists: return it unchanged when no new
  prompt was requested; fail with a conflict error if a new prompt was explicitly
  requested". It gives the session, or the message of the error, and the sessions
  afterwards.\<close>

definition spawnOrchestrator ::
  "(string \<times> ProjectConfig) list \<Rightarrow> string \<Rightarrow> sessions \<Rightarrow> string \<Rightarrow> string option
     \<Rightarrow> (string + Session) \<times> sessions" where
  "spawnOrchestrator projects handle st projectId initialPrompt =
     (case map_of projects projectId of
        None \<Rightarrow> (Inl ''unknown project'', st)
      | Some proj \<Rightarrow>
          let sessionId = sessionPrefix proj @ ''-orchestrator'';
              created = (Inr (new_orchestrator sessionId handle),
                         AList.update sessionId (new_orchestrator sessionId handle) st)
          in (case map_of st sessionId of
                None \<Rightarrow> created
              | Some s \<Rightarrow>
                  if session_status s \<in> TERMINAL_STATUSES then created
                  else if truthy initialPrompt then (Inl ''conflict'', st)
                  else (Inr s, st)))"

text \<open>Modelled from the spec: the session manager that holds the sessions \<^verbatim>\<open>st\<close>, as the
  start command meets it.\<close>

definition sm_env ::
  "(string \<times> ProjectConfig) list \<Rightarrow> string \<Rightarrow> (string \<Rightarrow> bool) \<Rightarrow> bool \<Rightarrow> sessions \<Rightarrow> start_env" where
  "sm_env projects handle exist dash st =
     \<lparr> pathExists = exist, dashboardStarts = dash, sm_get = map_of st,
       sm_spawnOrchestrator = (\<lambda>p i. fst (spawnOrchestrator projects handle st p i)) \<rparr>"

text \<open>Modelled from the spec: the sessions after the calls in a list of events.\<close>

fun sessions_after ::
  "(string \<times> ProjectConfig) list \<Rightarrow> string \<Rightarrow> sessions \<Rightarrow> start_event list \<Rightarrow> sessions" where
  "sessions_after projects handle st [] = st"
| "sessions_after projects handle st (SpawnOrchestrator p i # evs) =
     sessions_after projects handle (snd (spawnOrchestrator projects handle st p i)) evs"
| "sessions_after projects handle st (e # evs) = sessions_after projects handle st evs"

text \<open>Modelled from the spec: one run of the start command over that session manager: its
  events, its outcome, and the sessions afterwards.\<close>

definition start_run ::
  "(string \<times> ProjectConfig) list \<Rightarrow> string \<Rightarrow> (string \<Rightarrow> bool) \<Rightarrow> bool \<Rightarrow> sessions
     \<Rightarrow> string option \<Rightarrow> start_opts
     \<Rightarrow> start_event list \<times> (start_error + start_summary) \<times> sessions" where
  "start_run projects handle exist dash st projectArg opts =
     (let r = registerStart TERMINAL_STATUSES (sm_env projects handle exist dash st)
                projects projectArg opts
      in (fst r, snd r, sessions_after projects handle st (fst r)))"

section \<open>Lemmas on strings and lines\<close>

lemma isWhiteSpace_nl [simp]: "isWhiteSpace (CHR 0x0A)"
  by (simp add: isWhiteSpace_def)

lemma isWhiteSpace_eq [simp]: "\<not> isWhiteSpace (CHR ''='')"
  by (simp add: isWhiteSpace_def)

lemma trim_Nil [simp]: "trim [] = []"
  by (simp add: trim_def)

lemma set_trim: "set (trim s) \<subseteq> set s"
proof -
  have "set (dropWhile isWhiteSpace (rev (dropWhile isWhiteSpace s))) \<subseteq> set (rev (dropWhile isWhiteSpace s))"
    by (auto dest: set_dropWhileD)
  also have "\<dots> \<subseteq> set s" by (auto dest: set_dropWhileD)
  finally show ?thesis by (simp add: trim_def)
qed

lemma trim_id: "trimmed s \<Longrightarrow> trim s = s"
proof (cases "s = []")
  case True then show ?thesis by simp
next
  case False
  assume "trimmed s"
  with False have h: "\<not> isWhiteSpace (hd s)" and l: "\<not> isWhiteSpace (last s)"
    by (auto simp: trimmed_def)
  from False h have 1: "dropWhile isWhiteSpace s = s" by (cases s) auto
  from False l have 2: "dropWhile isWhiteSpace (rev s) = rev s"
    by (cases "rev s") (auto simp: last_rev[symmetric] hd_rev)
  show ?thesis by (simp add: trim_def 1 2)
qed

lemma trimmed_trim: "trimmed (trim s)"
proof -
  define t where "t = dropWhile isWhiteSpace s"
  define u where "u = dropWhile isWhiteSpace (rev t)"
  have tr: "trim s = rev u" by (simp add: trim_def t_def u_def)
  show ?thesis
  proof (cases "u = []")
    case True then show ?thesis by (simp add: tr trimmed_def)
  next
    case False
    then have hu: "\<not> isWhiteSpace (hd u)" unfolding u_def by (simp add: hd_dropWhile)
    from False have tn: "t \<noteq> []" unfolding u_def by auto
    then have ht: "\<not> isWhiteSpace (hd t)" unfolding t_def by (simp add: hd_dropWhile)
    obtain ws where "rev t = ws @ u" unfolding u_def
      by (metis takeWhile_dropWhile_id)
    with False have "last u = last (rev t)" by simp
    also have "\<dots> = hd t" using tn by (simp add: last_rev)
    finally have lu: "\<not> isWhiteSpace (last u)" using ht by simp
    from False hu lu show ?thesis by (simp add: tr trimmed_def hd_rev last_rev)
  qed
qed

lemma trim_trim [simp]: "trim (trim s) = trim s"
  by (rule trim_id) (rule trimmed_trim)

lemma split_nl_not_Nil [simp]: "split_nl s \<noteq> []"
  by (induction s) (auto split: list.splits)

lemma split_nl_no_nl: "CHR 0x0A \<notin> set a \<Longrightarrow> split_nl a = [a]"
  by (induction a) auto

lemma split_nl_append: "CHR 0x0A \<notin> set a \<Longrightarrow> split_nl (a @ CHR 0x0A # r) = a # split_nl r"
  by (induction a) auto

lemma split_nl_lines: "l \<in> set (split_nl s) \<Longrightarrow> CHR 0x0A \<notin> set l"
proof (induction s arbitrary: l)
  case Nil then show ?case by simp
next
  case (Cons c cs)
  then show ?case
    by (cases "split_nl cs") (auto split: if_splits)
qed

lemma split_nl_join:
  "list_all (\<lambda>l. CHR 0x0A \<notin> set l) ls \<Longrightarrow>
   split_nl (join_nl ls @ [CHR 0x0A]) = (if ls = [] then [] # [] else ls) @ [] # []"
proof (induction ls rule: join_nl.induct)
  case 1 then show ?case by simp
next
  case (2 x) then show ?case using split_nl_append[of x "[]"] by simp
next
  case (3 x y ys)
  then show ?case using split_nl_append[of x "join_nl (y # ys) @ [CHR 0x0A]"] by simp
qed

section \<open>Lemmas on parsing and serialising records\<close>

lemma obj_set_clean: "k \<noteq> ''__proto__'' \<Longrightarrow> obj_set k v ob = AList.update k v ob"
  by (simp add: obj_set_def)

lemma startsWith_hash: "s \<noteq> [] \<Longrightarrow> startsWith s ''#'' \<longleftrightarrow> hd s = CHR ''#''"
  by (cases s) (auto simp: startsWith_def)

lemma trimmed_kv:
  assumes "clean_key k" "clean_value v"
  shows "trimmed (k @ CHR ''='' # v)"
proof -
  from assms have k: "k \<noteq> []" "\<not> isWhiteSpace (hd k)" by (auto simp: clean_key_def trimmed_def)
  have "\<not> isWhiteSpace (last (k @ CHR ''='' # v))"
    using assms(2) by (cases "v = []") (auto simp: clean_value_def trimmed_def)
  with k show ?thesis by (simp add: trimmed_def)
qed

lemma parse_line_kv:
  assumes "clean_key k" "clean_value v"
  shows "parse_line r (k @ CHR ''='' # v) = AList.update k v r"
proof -
  have t: "trim (k @ CHR ''='' # v) = k @ CHR ''='' # v"
    using assms by (intro trim_id trimmed_kv)
  from assms(1) have k: "k \<noteq> []" "hd k \<noteq> CHR ''#''" "CHR ''='' \<notin> set k" "trim k = k"
    "k \<noteq> ''__proto__''"
    unfolding clean_key_def by (simp_all add: trim_id)
  from assms(2) have v: "trim v = v" by (simp add: clean_value_def trim_id)
  have tw: "takeWhile (\<lambda>c. c \<noteq> CHR ''='') (k @ CHR ''='' # v) = k"
    using k(3) by (induction k) auto
  have dw: "dropWhile (\<lambda>c. c \<noteq> CHR ''='') (k @ CHR ''='' # v) = CHR ''='' # v"
    using k(3) by (induction k) auto
  have sw: "\<not> startsWith (k @ CHR ''='' # v) ''#''"
    using k(1,2) by (simp add: startsWith_hash)
  have "parse_line r (k @ CHR ''='' # v) = obj_set k v r"
    unfolding parse_line_def t Let_def tw dw using k(1,4) sw v by simp
  then show ?thesis using k(5) by (simp add: obj_set_def)
qed

lemma parse_line_blank [simp]: "parse_line r [] = r"
  by (simp add: parse_line_def)

lemma kv_no_nl: "clean_key k \<Longrightarrow> clean_value v \<Longrightarrow> CHR 0x0A \<notin> set (k @ CHR ''='' # v)"
  by (simp add: clean_key_def clean_value_def)

lemma foldl_parse_kv:
  "list_all (\<lambda>(k, v). clean_key k \<and> clean_value v) xs \<Longrightarrow>
   foldl parse_line acc (map (\<lambda>(k, v). k @ ''='' @ v) xs) = foldl (\<lambda>r (k, v). AList.update k v r) acc xs"
proof (induction xs arbitrary: acc)
  case Nil then show ?case by simp
next
  case (Cons x xs)
  obtain k v where x: "x = (k, v)" by (cases x)
  with Cons.prems have "clean_key k" "clean_value v" by simp_all
  then have "parse_line acc (k @ CHR ''='' # v) = AList.update k v acc" by (rule parse_line_kv)
  with Cons x show ?case by simp
qed

lemma serialize_lines:
  assumes "list_all (\<lambda>(k, v). clean_key k \<and> clean_value v) ob"
  shows "foldl parse_line acc (split_nl (serializeMetadata ob))
         = foldl (\<lambda>r (k, v). AList.update k v r) acc (filter (\<lambda>(k, v). v \<noteq> []) ob)"
proof -
  let ?xs = "filter (\<lambda>(k, v). v \<noteq> []) ob"
  let ?ls = "map (\<lambda>(k, v). k @ ''='' @ v) ?xs"
  from assms have c: "list_all (\<lambda>(k, v). clean_key k \<and> clean_value v) ?xs"
    by (simp add: list_all_iff)
  then have "list_all (\<lambda>l. CHR 0x0A \<notin> set l) ?ls"
    by (auto simp: list_all_iff clean_key_def clean_value_def)
  then have "split_nl (serializeMetadata ob) = (if ?ls = [] then [] # [] else ?ls) @ [] # []"
    unfolding serializeMetadata_def by (rule split_nl_join)
  then have "foldl parse_line acc (split_nl (serializeMetadata ob)) = foldl parse_line acc ?ls"
    by (cases "?ls = []") simp_all
  with foldl_parse_kv[OF c, of acc] show ?thesis by simp
qed

lemma map_of_foldl_update:
  "map_of (foldl (\<lambda>r (k, v). AList.update k v r) acc xs) = map_of acc ++ map_of (rev xs)"
proof (induction xs arbitrary: acc)
  case Nil then show ?case by simp
next
  case (Cons x xs)
  obtain k v where x: "x = (k, v)" by (cases x)
  have "map_of (foldl (\<lambda>r (k, v). AList.update k v r) (AList.update k v acc) xs)
        = map_of (AList.update k v acc) ++ map_of (rev xs)" by (rule Cons.IH)
  also have "\<dots> = (map_of acc)(k \<mapsto> v) ++ map_of (rev xs)" by (simp only: update_conv')
  also have "\<dots> = map_of acc ++ map_of (rev (x # xs))"
    by (rule ext) (simp add: map_add_def x split: option.splits)
  finally show ?case by (simp add: x)
qed

lemma map_of_rev_distinct: "distinct (map fst xs) \<Longrightarrow> map_of (rev xs) = map_of xs"
  by (rule ext) (metis distinct_rev map_of_eq_Some_iff map_of_eq_None_iff not_Some_eq rev_map set_rev)

lemma map_of_filter_nonempty:
  "distinct (map fst ob) \<Longrightarrow> map_of (filter (\<lambda>(k, v). v \<noteq> []) ob) k = nonempty (map_of ob k)"
proof (induction ob)
  case Nil then show ?case by (simp add: nonempty_def)
next
  case (Cons x ob)
  obtain k' v where x: "x = (k', v)" by (cases x)
  from Cons.prems x have nk: "k' \<notin> fst ` set ob" and d: "distinct (map fst ob)" by auto
  have f: "map_of (filter (\<lambda>(k, v). v \<noteq> []) ob) k' = None"
    using nk by (auto simp: map_of_eq_None_iff)
  show ?case using Cons.IH[OF d] f by (auto simp: x nonempty_def)
qed

lemma parse_serialize:
  assumes "clean_obj ob"
  shows "map_of (parseMetadataFile (serializeMetadata ob)) k = nonempty (map_of ob k)"
proof -
  let ?xs = "filter (\<lambda>(k, v). v \<noteq> []) ob"
  from assms have c: "list_all (\<lambda>(k, v). clean_key k \<and> clean_value v) ob"
    and d: "distinct (map fst ob)" by (simp_all add: clean_obj_def)
  from d have dx: "distinct (map fst ?xs)" by (rule distinct_map_filter)
  have "map_of (parseMetadataFile (serializeMetadata ob)) = map_of (rev ?xs)"
    unfolding parseMetadataFile_def serialize_lines[OF c] map_of_foldl_update by simp
  also have "\<dots> = map_of ?xs" using dx by (rule map_of_rev_distinct)
  finally show ?thesis using d by (simp add: map_of_filter_nonempty)
qed

lemma hd_trim:
  assumes "s \<noteq> []" "\<not> isWhiteSpace (hd s)"
  shows "trim s \<noteq> [] \<and> hd (trim s) = hd s"
proof -
  from assms have 1: "dropWhile isWhiteSpace s = s" by (cases s) auto
  define u where "u = dropWhile isWhiteSpace (rev s)"
  have tr: "trim s = rev u" by (simp add: trim_def 1 u_def)
  from assms have "hd s \<in> set (rev s)" by simp
  with assms(2) have un: "u \<noteq> []" unfolding u_def by (auto simp: dropWhile_eq_Nil_conv)
  have "rev s = takeWhile isWhiteSpace (rev s) @ u" by (simp add: u_def)
  then have "s = rev u @ rev (takeWhile isWhiteSpace (rev s))"
    by (metis rev_append rev_rev_ident)
  then have "hd s = hd (rev u)" using un by (metis hd_append2 rev_is_Nil_conv)
  with un show ?thesis by (simp add: tr)
qed

lemma list_all_update:
  "list_all P al \<Longrightarrow> P (k, v) \<Longrightarrow> list_all P (AList.update k v al)"
  by (induction al) auto

lemma list_all_delete: "list_all P al \<Longrightarrow> list_all P (AList.delete k al)"
  by (induction al) auto

lemma clean_obj_update:
  "clean_obj ob \<Longrightarrow> clean_key k \<Longrightarrow> clean_value v \<Longrightarrow> clean_obj (AList.update k v ob)"
  by (simp add: clean_obj_def distinct_update list_all_update)

lemma clean_obj_delete: "clean_obj ob \<Longrightarrow> clean_obj (AList.delete k ob)"
  by (simp add: clean_obj_def distinct_delete list_all_delete)

lemma clean_obj_Nil [simp]: "clean_obj []"
  by (simp add: clean_obj_def)

lemma clean_obj_parse_line:
  assumes "clean_obj r" "CHR 0x0A \<notin> set line"
  shows "clean_obj (parse_line r line)"
proof -
  define t where "t = trim line"
  define tk where "tk = takeWhile (\<lambda>c. c \<noteq> CHR ''='') t"
  define key where "key = trim tk"
  define val where "val = trim (tl (dropWhile (\<lambda>c. c \<noteq> CHR ''='') t))"
  have pl: "parse_line r line =
     (if t = [] \<or> startsWith t ''#'' then r else if CHR ''='' \<notin> set t then r
      else if key \<noteq> [] then obj_set key val r else r)"
    by (simp add: parse_line_def Let_def t_def tk_def key_def val_def)
  have tnl: "CHR 0x0A \<notin> set t" using assms(2) set_trim[of line] by (auto simp: t_def)
  have cv: "clean_value val"
  proof -
    have "set val \<subseteq> set t"
    proof
      fix x assume "x \<in> set val"
      then have "x \<in> set (tl (dropWhile (\<lambda>c. c \<noteq> CHR ''='') t))"
        unfolding val_def using set_trim by blast
      then have "x \<in> set (dropWhile (\<lambda>c. c \<noteq> CHR ''='') t)" by (metis list.sel(2) list.set_sel(2))
      then show "x \<in> set t" by (rule set_dropWhileD)
    qed
    moreover have "trimmed val" unfolding val_def by (rule trimmed_trim)
    ultimately show ?thesis using tnl unfolding clean_value_def by blast
  qed
  have ck: "clean_key key \<or> key = ''__proto__''"
    if tn: "t \<noteq> []" and ns: "\<not> startsWith t ''#''" and kn: "key \<noteq> []"
  proof -
    have tt: "trimmed t" unfolding t_def by (rule trimmed_trim)
    with tn have ht: "\<not> isWhiteSpace (hd t)" by (simp add: trimmed_def)
    from kn have tkn: "tk \<noteq> []" by (auto simp: key_def)
    then have htk: "hd tk = hd t" unfolding tk_def by (cases t) (auto split: if_splits)
    from hd_trim[OF tkn] ht htk have hk: "hd key = hd t" by (simp add: key_def)
    from ns tn have "hd t \<noteq> CHR ''#''" by (simp add: startsWith_hash)
    with hk have 1: "hd key \<noteq> CHR ''#''" by simp
    have sk: "set key \<subseteq> set tk" unfolding key_def by (rule set_trim)
    have "CHR ''='' \<notin> set tk" unfolding tk_def by (auto dest: set_takeWhileD)
    with sk have 2: "CHR ''='' \<notin> set key" by auto
    have "set tk \<subseteq> set t" unfolding tk_def by (auto dest: set_takeWhileD)
    with sk tnl have 3: "CHR 0x0A \<notin> set key" by auto
    have 4: "trimmed key" unfolding key_def by (rule trimmed_trim)
    from kn 1 2 3 4 show ?thesis unfolding clean_key_def by blast
  qed
  show ?thesis
  proof (cases "t = [] \<or> startsWith t ''#'' \<or> CHR ''='' \<notin> set t \<or> key = []")
    case True
    then show ?thesis using assms(1) by (auto simp: pl)
  next
    case False
    then have p: "parse_line r line = obj_set key val r" by (simp add: pl)
    from False ck have "clean_key key \<or> key = ''__proto__''" by blast
    then show ?thesis
    proof
      assume k: "clean_key key"
      then have "key \<noteq> ''__proto__''" by (simp add: clean_key_def)
      then show ?thesis using assms(1) k cv by (simp add: p obj_set_def clean_obj_update)
    next
      assume "key = ''__proto__''"
      then show ?thesis using assms(1) by (simp add: p obj_set_def)
    qed
  qed
qed

lemma clean_obj_foldl_parse:
  "clean_obj r \<Longrightarrow> list_all (\<lambda>l. CHR 0x0A \<notin> set l) ls \<Longrightarrow> clean_obj (foldl parse_line r ls)"
  by (induction ls arbitrary: r) (auto simp: clean_obj_parse_line)

lemma clean_obj_parse: "clean_obj (parseMetadataFile c)"
  unfolding parseMetadataFile_def
  by (rule clean_obj_foldl_parse) (auto simp: list_all_iff dest: split_nl_lines)

lemma split_nl_append_nl: "split_nl (c @ CHR 0x0A # r) = split_nl c @ split_nl r"
proof (induction c)
  case Nil then show ?case by simp
next
  case (Cons a c)
  then show ?case by (cases "split_nl c") (auto split: list.splits)
qed

lemma parse_append_line:
  "CHR 0x0A \<notin> set l \<Longrightarrow>
   parseMetadataFile (c @ CHR 0x0A # l) = parse_line (parseMetadataFile c) l"
  by (simp add: parseMetadataFile_def split_nl_append_nl split_nl_no_nl)

lemma parse_line_skip:
  assumes "trim l = [] \<or> startsWith (trim l) ''#'' \<or> CHR ''='' \<notin> set l
           \<or> trim (takeWhile (\<lambda>c. c \<noteq> CHR ''='') (trim l)) = []"
  shows "parse_line r l = r"
proof -
  have "CHR ''='' \<notin> set l \<Longrightarrow> CHR ''='' \<notin> set (trim l)" using set_trim[of l] by auto
  with assms show ?thesis by (auto simp: parse_line_def Let_def)
qed

section \<open>Lemmas on the operations of the store\<close>

lemma lookup_short [simp]: "\<not> name_too_long n \<Longrightarrow> lookup d n = map_of d n"
  by (simp add: lookup_def)

lemma lookup_long [simp]: "name_too_long n \<Longrightarrow> lookup d n = None"
  by (simp add: lookup_def)

lemma lookup_SomeD: "lookup d n = Some x \<Longrightarrow> map_of d n = Some x \<and> \<not> name_too_long n"
  by (simp add: lookup_def split: if_splits)

lemma isFile_lookupD: "isFile (lookup d n) \<Longrightarrow> isFile (map_of d n) \<and> \<not> name_too_long n"
  by (simp add: lookup_def split: if_splits)

lemma node_at_short: "node_at d p = Some x \<Longrightarrow> \<not> path_too_long p"
  by (cases p) (auto simp: lookup_def split: if_splits option.splits node.splits)

lemma idChar_ascii: "idChar c \<Longrightarrow> of_char c < (128::nat)"
  by (auto simp: idChar_def)

lemma byte_length_ascii: "list_all idChar n \<Longrightarrow> byte_length n = length n"
  by (induction n) (simp_all add: byte_length_def idChar_ascii)

lemma VALID_too_long: "VALID_SESSION_ID sid \<Longrightarrow> name_too_long sid \<longleftrightarrow> NAME_MAX < length sid"
  by (simp add: VALID_SESSION_ID_def name_too_long_def byte_length_ascii)

lemma entries_Some [simp]: "entries (Some d) = d"
  by (simp add: entries_def)

lemma entries_None [simp]: "entries None = []"
  by (simp add: entries_def)

lemma entries_mkdirSync [simp]: "entries (mkdirSync s) = entries s"
  by (simp add: mkdirSync_def)

lemma open_excl_mkdirSync:
  "open_excl (mkdirSync s) n =
     (if \<not> name_too_long n \<and> map_of (entries s) n = None
      then (Some (entries s @ [(n, File [])]), True)
      else (Some (entries s), False))"
  by (simp add: open_excl_def mkdirSync_def)

lemma clean_keys_metadata:
  "clean_key ''worktree''" "clean_key ''branch''" "clean_key ''status''" "clean_key ''issue''"
  "clean_key ''pr''" "clean_key ''summary''" "clean_key ''project''" "clean_key ''createdAt''"
  "clean_key ''runtimeHandle''"
  by (simp_all add: clean_key_def trimmed_def isWhiteSpace_def)

lemma clean_obj_set_if_truthy:
  "clean_obj data \<Longrightarrow> clean_key k \<Longrightarrow> clean_opt v \<Longrightarrow> clean_obj (set_if_truthy k v data)"
  by (cases v) (simp_all add: set_if_truthy_def obj_set_def clean_opt_def clean_obj_update)

lemma map_of_set_if_truthy:
  "k \<noteq> ''__proto__'' \<Longrightarrow>
   map_of (set_if_truthy k v data) k' = (if k' = k \<and> nonempty v \<noteq> None then v else map_of data k')"
  by (cases v) (simp_all add: set_if_truthy_def obj_set_def update_conv' nonempty_def)

lemma clean_obj_metadata_data:
  assumes "clean_metadata m"
  shows "clean_obj (metadata_data m)"
proof -
  from assms have "clean_obj [(''worktree'', worktree m), (''branch'', branch m), (''status'', status m)]"
    by (simp add: clean_obj_def clean_metadata_def clean_keys_metadata)
  with assms show ?thesis
    unfolding metadata_data_def clean_metadata_def
    by (intro clean_obj_set_if_truthy clean_keys_metadata) simp_all
qed

lemma metadata_data_lookup:
  "map_of (metadata_data m) ''worktree'' = Some (worktree m)"
  "map_of (metadata_data m) ''branch'' = Some (branch m)"
  "map_of (metadata_data m) ''status'' = Some (status m)"
  "nonempty (map_of (metadata_data m) ''issue'') = nonempty (issue m)"
  "nonempty (map_of (metadata_data m) ''pr'') = nonempty (pr m)"
  "nonempty (map_of (metadata_data m) ''summary'') = nonempty (summary m)"
  "nonempty (map_of (metadata_data m) ''project'') = nonempty (project m)"
  "nonempty (map_of (metadata_data m) ''createdAt'') = nonempty (createdAt m)"
  "nonempty (map_of (metadata_data m) ''runtimeHandle'') = nonempty (runtimeHandle m)"
  by (simp_all add: metadata_data_def map_of_set_if_truthy nonempty_def)

lemma nullish_nonempty: "nullish (nonempty (Some v)) [] = v"
  by (simp add: nullish_def nonempty_def)

lemma metadata_roundtrip:
  assumes "clean_metadata m"
  shows "metadata_of_raw (parseMetadataFile (serializeMetadata (metadata_data m))) =
    \<lparr> worktree = worktree m, branch = branch m,
      status = (if status m = [] then ''unknown'' else status m),
      issue = nonempty (issue m), pr = nonempty (pr m), summary = nonempty (summary m),
      project = nonempty (project m), createdAt = nonempty (createdAt m),
      runtimeHandle = nonempty (runtimeHandle m) \<rparr>"
proof -
  note ps = parse_serialize[OF clean_obj_metadata_data[OF assms]]
  show ?thesis
    unfolding metadata_of_raw_def obj_get_def ps metadata_data_lookup
    by (simp add: nullish_def nonempty_def)
qed

lemma VALID_validate: "VALID_SESSION_ID sid \<Longrightarrow> validateSessionId sid = Inr ()"
  by (simp add: validateSessionId_def)

lemma write_flat_then_resolve:
  assumes "VALID_SESSION_ID sid" "writeFileSync d (Flat sid) c = Inr d'"
  shows "resolveMetadataPath (Some d') sid = Inr (Some (Flat sid))"
    and "readFileSync d' (Flat sid) = Inr c"
proof -
  from assms(2) have "d' = AList.update sid (File c) d" and l: "\<not> name_too_long sid"
    by (simp_all split: if_splits)
  then have n: "node_at d' (Flat sid) = Some (File c)" by (simp add: update_conv')
  then show "resolveMetadataPath (Some d') sid = Inr (Some (Flat sid))"
    using assms(1) by (simp add: resolveMetadataPath_def VALID_validate)
  from n l show "readFileSync d' (Flat sid) = Inr c" by (simp add: readFileSync_def)
qed

lemma parse_empty [simp]: "parseMetadataFile [] = []"
  by (simp add: parseMetadataFile_def)

lemma metadata_of_raw_Nil:
  "metadata_of_raw [] = \<lparr> worktree = [], branch = [], status = ''unknown'', issue = None,
     pr = None, summary = None, project = None, createdAt = None, runtimeHandle = None \<rparr>"
  by (simp add: metadata_of_raw_def obj_get_def nullish_def)

lemma reserve_valid:
  "VALID_SESSION_ID sid \<Longrightarrow> reserveSessionId s sid = Inr (open_excl (mkdirSync s) sid)"
  by (simp add: reserveSessionId_def metadataPath_def VALID_validate)

lemma open_excl_Some:
  "open_excl (Some d) n =
     (if \<not> name_too_long n \<and> map_of d n = None then (Some (d @ [(n, File [])]), True)
      else (Some d, False))"
  by (simp add: open_excl_def)

lemma map_of_snoc_fresh: "map_of d n = None \<Longrightarrow> map_of (d @ [(n, x)]) n = Some x"
  by (simp add: map_add_def split: option.splits)

lemma read_after_create:
  assumes "VALID_SESSION_ID sid" "map_of d sid = None" "\<not> name_too_long sid"
  shows "readMetadata (Some (d @ [(sid, File [])])) sid = Inr (Some (metadata_of_raw []))"
proof -
  from assms(2) have "map_of (d @ [(sid, File [])]) sid = Some (File [])"
    by (rule map_of_snoc_fresh)
  with assms(3) have n: "node_at (d @ [(sid, File [])]) (Flat sid) = Some (File [])"
    by (simp only: node_at.simps lookup_def if_False)
  then have "resolveMetadataPath (Some (d @ [(sid, File [])])) sid = Inr (Some (Flat sid))"
    using assms(1) by (simp add: resolveMetadataPath_def VALID_validate)
  moreover from n assms(3) have "readFileSync (d @ [(sid, File [])]) (Flat sid) = Inr []"
    by (simp add: readFileSync_def)
  ultimately show ?thesis by (simp add: readMetadata_def entries_def)
qed

section \<open>Lemmas on the race of reservations\<close>

lemma run_race_snoc: "run_race sid s (sched @ [c]) = race_step sid (run_race sid s sched) c"
  by (simp add: run_race_def)

lemma run_race_Nil: "run_race sid s [] = race_init s"
  by (simp add: run_race_def)

lemma race_pc: "pc (run_race sid s sched) c = min 2 (count_list sched c)"
proof (induction sched rule: rev_induct)
  case Nil then show ?case by (simp add: run_race_Nil race_init_def)
next
  case (snoc x xs)
  then show ?case by (auto simp: run_race_snoc race_step_def)
qed

text \<open>What holds of every state of a race.\<close>

lemma race_returned_pc:
  "(returned (run_race sid s sched) c \<noteq> None) = (pc (run_race sid s sched) c = 2)"
proof (induction sched rule: rev_induct)
  case Nil then show ?case by (simp add: run_race_Nil race_init_def)
next
  case (snoc x xs)
  then show ?case by (auto simp: run_race_snoc race_step_def)
qed

lemma race_disk_exists:
  "pc (run_race sid s sched) c \<noteq> 0 \<Longrightarrow> disk (run_race sid s sched) \<noteq> None"
proof (induction sched arbitrary: c rule: rev_induct)
  case Nil then show ?case by (simp add: run_race_Nil race_init_def)
next
  case (snoc x xs)
  show ?case
  proof (cases "pc (run_race sid s xs) x = 0")
    case True
    then show ?thesis by (simp add: run_race_snoc race_step_def mkdirSync_def)
  next
    case False
    then obtain d where "disk (run_race sid s xs) = Some d" using snoc.IH[of x] by auto
    then show ?thesis by (simp add: run_race_snoc race_step_def open_excl_def mkdirSync_def)
  qed
qed

lemma race_free:
  assumes "map_of (entries s) sid = None" "\<not> name_too_long sid"
  shows "(map_of (entries (disk (run_race sid s sched))) sid = None
            \<and> (\<forall>c. returned (run_race sid s sched) c \<noteq> Some True)
            \<and> (\<forall>c. pc (run_race sid s sched) c \<noteq> 2))
         \<or> (map_of (entries (disk (run_race sid s sched))) sid \<noteq> None
            \<and> (\<exists>!c. returned (run_race sid s sched) c = Some True))"
proof (induction sched rule: rev_induct)
  case Nil
  then show ?case using assms by (simp add: run_race_Nil race_init_def)
next
  case (snoc x xs)
  let ?r = "run_race sid s xs"
  consider (mk) "pc ?r x = 0" | (op) "pc ?r x = 1" | (fin) "pc ?r x \<noteq> 0" "pc ?r x \<noteq> 1"
    by blast
  then show ?case
  proof cases
    case mk
    then have "race_step sid ?r x =
       \<lparr> disk = mkdirSync (disk ?r), pc = (pc ?r)(x := 1), returned = returned ?r \<rparr>"
      by (simp add: race_step_def)
    with snoc.IH show ?thesis by (auto simp: run_race_snoc)
  next
    case op
    then obtain d where d: "disk ?r = Some d" using race_disk_exists[of sid s xs x] by auto
    from op have rn: "returned ?r x = None" using race_returned_pc[of sid s xs x] by simp
    show ?thesis
    proof (cases "map_of d sid = None")
      case True
      with snoc.IH d have none: "\<forall>c. returned ?r c \<noteq> Some True" by auto
      from True op d assms(2) have st: "race_step sid ?r x =
         \<lparr> disk = Some (d @ [(sid, File [])]), pc = (pc ?r)(x := 2),
           returned = (returned ?r)(x := Some True) \<rparr>"
        by (simp add: race_step_def open_excl_def)
      have "\<exists>!c. ((returned ?r)(x := Some True)) c = Some True"
      proof (rule ex1I[of _ x])
        show "((returned ?r)(x := Some True)) x = Some True" by simp
      next
        fix c assume "((returned ?r)(x := Some True)) c = Some True"
        with none show "c = x" by (simp split: if_splits)
      qed
      moreover have "map_of (d @ [(sid, File [])]) sid \<noteq> None"
        using True by (simp only: map_of_snoc_fresh) simp
      ultimately show ?thesis by (simp add: run_race_snoc st)
    next
      case False
      with snoc.IH d have one: "\<exists>!c. returned ?r c = Some True" by auto
      from False op d have st: "race_step sid ?r x =
         \<lparr> disk = Some d, pc = (pc ?r)(x := 2),
           returned = (returned ?r)(x := Some False) \<rparr>"
        by (auto simp: race_step_def open_excl_def)
      from one obtain c0 where c0: "returned ?r c0 = Some True"
        and u: "\<forall>c. returned ?r c = Some True \<longrightarrow> c = c0" unfolding Ex1_def by blast
      from c0 rn have ne: "c0 \<noteq> x" by (metis option.distinct(1))
      have "\<exists>!c. ((returned ?r)(x := Some False)) c = Some True"
      proof (rule ex1I[of _ c0])
        show "((returned ?r)(x := Some False)) c0 = Some True" using c0 ne by simp
      next
        fix c assume "((returned ?r)(x := Some False)) c = Some True"
        then have "returned ?r c = Some True" by (simp split: if_splits)
        with u show "c = c0" by blast
      qed
      with False show ?thesis by (simp add: run_race_snoc st)
    qed
  next
    case fin
    then have "race_step sid ?r x = ?r" by (simp add: race_step_def)
    with snoc.IH show ?thesis by (simp add: run_race_snoc)
  qed
qed

lemma race_taken:
  assumes "name_too_long sid \<or> map_of (entries s) sid \<noteq> None"
  shows "(name_too_long sid \<or> map_of (entries (disk (run_race sid s sched))) sid \<noteq> None)
         \<and> (\<forall>c. returned (run_race sid s sched) c \<noteq> Some True)"
proof (induction sched rule: rev_induct)
  case Nil
  then show ?case using assms by (simp add: run_race_Nil race_init_def)
next
  case (snoc x xs)
  let ?r = "run_race sid s xs"
  from snoc.IH show ?case
    by (auto simp: run_race_snoc race_step_def open_excl_def mkdirSync_def split: option.splits)
qed

lemma race_alone:
  "run_race sid s [c, c] =
     \<lparr> disk = fst (open_excl (mkdirSync s) sid), pc = (\<lambda>x. 0)(c := 2),
       returned = (\<lambda>x. None)(c := Some (snd (open_excl (mkdirSync s) sid))) \<rparr>"
  by (simp add: run_race_def race_step_def race_init_def)

section \<open>Lemmas on merging updates and on resolved paths\<close>

lemma map_of_obj_set_other: "k \<noteq> k' \<Longrightarrow> map_of (obj_set k' v ob) k = map_of ob k"
  by (simp add: obj_set_def update_conv')

lemma map_of_delete_other: "k \<noteq> k' \<Longrightarrow> map_of (AList.delete k' ob) k = map_of ob k"
  by (simp add: delete_conv')

lemma merge_frame:
  "\<forall>x. (k, Some x) \<notin> set us \<Longrightarrow> map_of (merge_updates ob us) k = map_of ob k"
proof (induction us arbitrary: ob)
  case Nil then show ?case by simp
next
  case (Cons u us)
  obtain k' v where u: "u = (k', v)" by (cases u)
  from Cons.prems have rest: "\<forall>x. (k, Some x) \<notin> set us" by auto
  show ?case
  proof (cases v)
    case None
    with Cons.IH[OF rest] u show ?thesis by simp
  next
    case (Some x)
    with Cons.prems u have "k \<noteq> k'" by auto
    with Cons.IH[OF rest] u Some show ?thesis
      by (simp add: map_of_obj_set_other map_of_delete_other)
  qed
qed

lemma merge_named:
  assumes "distinct (map fst us)" "(k, Some x) \<in> set us" "k \<noteq> ''__proto__''"
  shows "map_of (merge_updates ob us) k = nonempty (Some x)"
  using assms
proof (induction us arbitrary: ob)
  case Nil then show ?case by simp
next
  case (Cons u us)
  obtain k' v where u: "u = (k', v)" by (cases u)
  show ?case
  proof (cases "u = (k, Some x)")
    case True
    with Cons.prems(1) have "k \<notin> fst ` set us" by auto
    then have "\<forall>y. (k, Some y) \<notin> set us" by force
    then have "\<And>ob'. map_of (merge_updates ob' us) k = map_of ob' k" by (rule merge_frame)
    with True Cons.prems(3) show ?thesis
      by (simp add: obj_set_def update_conv' delete_conv' nonempty_def)
  next
    case False
    with Cons.prems have "distinct (map fst us)" "(k, Some x) \<in> set us" by auto
    from Cons.IH[OF this Cons.prems(3)] u show ?thesis by (cases v) simp_all
  qed
qed

lemma clean_obj_merge:
  "clean_obj ob \<Longrightarrow> list_all (\<lambda>(k, v). clean_key k \<and> clean_opt v) us \<Longrightarrow>
   clean_obj (merge_updates ob us)"
proof (induction us arbitrary: ob)
  case Nil then show ?case by simp
next
  case (Cons u us)
  obtain k v where u: "u = (k, v)" by (cases u)
  with Cons.prems have k: "clean_key k" and v: "clean_opt v"
    and rest: "list_all (\<lambda>(k, v). clean_key k \<and> clean_opt v) us" by simp_all
  from k have np: "k \<noteq> ''__proto__''" by (simp add: clean_key_def)
  show ?case
  proof (cases v)
    case None
    with Cons.IH[OF Cons.prems(1) rest] u show ?thesis by simp
  next
    case (Some x)
    with v have "clean_value x" by (simp add: clean_opt_def)
    with Cons.prems(1) k have "clean_obj (AList.update k x ob)" by (simp add: clean_obj_update)
    moreover from Cons.prems(1) have "clean_obj (AList.delete k ob)" by (rule clean_obj_delete)
    ultimately show ?thesis using u Some np Cons.IH rest by (simp add: obj_set_def)
  qed
qed

lemma merge_then_parse:
  assumes "clean_obj ob" "distinct (map fst us)" "list_all (\<lambda>(k, v). clean_key k \<and> clean_opt v) us"
  shows "map_of (parseMetadataFile (serializeMetadata (merge_updates ob us))) k =
     (case map_of us k of Some (Some x) \<Rightarrow> nonempty (Some x) | _ \<Rightarrow> nonempty (map_of ob k))"
proof -
  have ps: "map_of (parseMetadataFile (serializeMetadata (merge_updates ob us))) k
        = nonempty (map_of (merge_updates ob us) k)"
    using assms(1,3) by (intro parse_serialize clean_obj_merge)
  show ?thesis
  proof (cases "\<exists>x. (k, Some x) \<in> set us")
    case True
    then obtain x where x: "(k, Some x) \<in> set us" by blast
    with assms(3) have "clean_key k" by (auto simp: list_all_iff)
    then have "k \<noteq> ''__proto__''" by (simp add: clean_key_def)
    with merge_named[OF assms(2) x] have "map_of (merge_updates ob us) k = nonempty (Some x)"
      by simp
    moreover from assms(2) x have "map_of us k = Some (Some x)" by simp
    ultimately show ?thesis by (simp add: ps nonempty_def)
  next
    case False
    then have f: "map_of (merge_updates ob us) k = map_of ob k" by (intro merge_frame) simp
    from False have "map_of us k = None \<or> map_of us k = Some None"
      by (metis map_of_SomeD not_Some_eq)
    then show ?thesis by (auto simp: ps f)
  qed
qed

lemma find_in_subdirs_Some:
  "find_in_subdirs d sid ns = Some p \<Longrightarrow>
   \<exists>e. p = Sub e sid \<and> e \<in> set ns \<and> endsWith e ''-sessions'' \<and> isFile (node_at d (Sub e sid))"
  by (induction ns) (auto split: if_splits)

lemma find_in_subdirs_cong:
  "(\<And>n. isFile (node_at d' (Sub n sid)) = isFile (node_at d (Sub n sid))) \<Longrightarrow>
   find_in_subdirs d' sid ns = find_in_subdirs d sid ns"
  by (induction ns) auto

lemma resolve_Some:
  assumes "resolveMetadataPath s sid = Inr (Some p)"
  shows "\<exists>d. s = Some d \<and> VALID_SESSION_ID sid \<and> isFile (node_at d p)
           \<and> (p = Flat sid \<or>
               (\<not> isFile (node_at d (Flat sid)) \<and> find_in_subdirs d sid (map fst d) = Some p))"
proof -
  from assms have v: "VALID_SESSION_ID sid"
    by (auto simp: resolveMetadataPath_def validateSessionId_def split: if_splits)
  from assms v obtain d where d: "s = Some d"
    by (cases s) (auto simp: resolveMetadataPath_def VALID_validate)
  show ?thesis
  proof (cases "isFile (node_at d (Flat sid))")
    case True
    with assms v d have "p = Flat sid" by (simp add: resolveMetadataPath_def VALID_validate)
    with True v d show ?thesis by simp
  next
    case False
    with assms v d have f: "find_in_subdirs d sid (map fst d) = Some p"
      by (simp add: resolveMetadataPath_def VALID_validate)
    from find_in_subdirs_Some[OF f] have "isFile (node_at d p)" by auto
    with v d False f show ?thesis by simp
  qed
qed

lemma isFile_cases: "isFile x \<Longrightarrow> \<exists>c. x = Some (File c)"
  by (cases x rule: isFile.cases) auto

text \<open>Writing over the file that \<^const>\<open>resolveMetadataPath\<close> found succeeds, and the same path
  is found again afterwards.\<close>

lemma write_resolved:
  assumes "resolveMetadataPath (Some d) sid = Inr (Some p)"
  shows "\<exists>d'. writeFileSync d p c = Inr d' \<and> readFileSync d' p = Inr c
           \<and> resolveMetadataPath (Some d') sid = Inr (Some p)"
proof -
  from resolve_Some[OF assms] have v: "VALID_SESSION_ID sid" and fp: "isFile (node_at d p)"
    and alt: "p = Flat sid \<or>
       (\<not> isFile (node_at d (Flat sid)) \<and> find_in_subdirs d sid (map fst d) = Some p)"
    by auto
  from alt show ?thesis
  proof
    assume p: "p = Flat sid"
    with fp have "isFile (map_of d sid)" and l: "\<not> name_too_long sid"
      by (auto dest: isFile_lookupD)
    then have "\<not> isDirectory (map_of d sid)" by (auto dest: isFile_cases)
    with l have w: "writeFileSync d (Flat sid) c = Inr (AList.update sid (File c) d)" by simp
    from write_flat_then_resolve[OF v w] w p show ?thesis by simp
  next
    assume a: "\<not> isFile (node_at d (Flat sid)) \<and> find_in_subdirs d sid (map fst d) = Some p"
    then obtain e where p: "p = Sub e sid" and e: "e \<in> set (map fst d)"
      using find_in_subdirs_Some by blast
    from fp p obtain es c0 where es: "map_of d e = Some (Dir es)" and c0: "map_of es sid = Some (File c0)"
      and le: "\<not> name_too_long e" and ls: "\<not> name_too_long sid"
      by (auto simp: lookup_def dest!: isFile_cases split: option.splits node.splits if_splits)
    let ?d' = "AList.update e (Dir (AList.update sid (File c) es)) d"
    from es c0 le ls have w: "writeFileSync d (Sub e sid) c = Inr ?d'" by simp
    have r: "readFileSync ?d' (Sub e sid) = Inr c"
      using le ls by (simp add: readFileSync_def update_conv')
    have keys: "map fst ?d' = map fst d" using e by (simp add: update_keys)
    have same: "\<And>n. isFile (node_at ?d' (Sub n sid)) = isFile (node_at d (Sub n sid))"
      using es c0 ls by (simp add: update_conv' lookup_def)
    have flat: "\<not> isFile (node_at ?d' (Flat sid))"
      using a ls by (simp add: update_conv')
    have "find_in_subdirs ?d' sid (map fst ?d') = find_in_subdirs d sid (map fst d)"
      unfolding keys using same by (rule find_in_subdirs_cong)
    with a flat v have "resolveMetadataPath (Some ?d') sid = Inr (Some p)"
      by (simp add: resolveMetadataPath_def VALID_validate)
    with w r p show ?thesis by simp
  qed
qed

lemma readRaw_Some:
  assumes "readMetadataRaw s sid = Inr (Some old)"
  shows "\<exists>d p c. s = Some d \<and> resolveMetadataPath (Some d) sid = Inr (Some p)
           \<and> node_at d p = Some (File c) \<and> old = parseMetadataFile c"
proof -
  from assms obtain p where p: "resolveMetadataPath s sid = Inr (Some p)"
    by (auto simp: readMetadataRaw_def split: sum.splits option.splits)
  from resolve_Some[OF p] obtain d where d: "s = Some d" and f: "isFile (node_at d p)" by auto
  from f obtain c where c: "node_at d p = Some (File c)" by (auto dest: isFile_cases)
  with assms p d have "old = parseMetadataFile c"
    by (simp add: readMetadataRaw_def readFileSync_def split: if_splits)
  with p d c show ?thesis by auto
qed

section \<open>Lemmas on listing and on the place of writes\<close>

lemma set_set_add [simp]: "set (set_add seen x) = insert x (set seen)"
  by (auto simp: set_add_def)

lemma distinct_set_add [simp]: "distinct seen \<Longrightarrow> distinct (set_add seen x)"
  by (simp add: set_add_def)

lemma VALID_not_dot: "VALID_SESSION_ID n \<Longrightarrow> \<not> startsWith n ''.''"
  by (cases n) (auto simp: VALID_SESSION_ID_def startsWith_def idChar_def)

lemma isFile_in_keys: "isFile (lookup es n) \<Longrightarrow> n \<in> set (map fst es)"
  by (cases "map_of es n") (auto simp: lookup_def dest: map_of_SomeD intro: rev_image_eqI split: if_splits)

lemma distinct_list_sub_entry: "distinct seen \<Longrightarrow> distinct (list_sub_entry es seen e)"
  by (simp add: list_sub_entry_def)

lemma distinct_foldl_sub: "distinct seen \<Longrightarrow> distinct (foldl (list_sub_entry es) seen ns)"
  by (induction ns arbitrary: seen) (simp_all add: distinct_list_sub_entry)

lemma distinct_list_entry: "distinct seen \<Longrightarrow> distinct (list_entry d seen n)"
  by (simp add: list_entry_def distinct_foldl_sub split: option.splits node.splits)

lemma distinct_foldl_entry: "distinct seen \<Longrightarrow> distinct (foldl (list_entry d) seen ns)"
  by (induction ns arbitrary: seen) (simp_all add: distinct_list_entry)

lemma distinct_listMetadata: "distinct (listMetadata s)"
  by (cases s) (simp_all add: listMetadata_def distinct_foldl_entry)

lemma set_list_sub_entry:
  "set (list_sub_entry es seen e) =
     set seen \<union> {n. n = e \<and> VALID_SESSION_ID n \<and> n \<noteq> ''archive'' \<and> isFile (lookup es n)}"
  using VALID_not_dot[of e] by (auto simp: list_sub_entry_def)

lemma set_foldl_sub:
  "set (foldl (list_sub_entry es) seen ns) =
     set seen \<union> {n \<in> set ns. VALID_SESSION_ID n \<and> n \<noteq> ''archive'' \<and> isFile (lookup es n)}"
proof (induction ns arbitrary: seen)
  case Nil then show ?case by simp
next
  case (Cons a ns)
  show ?case unfolding foldl_Cons Cons.IH set_list_sub_entry by auto
qed

lemma set_sub_dir:
  "set (foldl (list_sub_entry es) seen (map fst es)) =
     set seen \<union> {n. VALID_SESSION_ID n \<and> n \<noteq> ''archive'' \<and> isFile (lookup es n)}"
  unfolding set_foldl_sub using isFile_in_keys[of es] by auto

lemma set_list_entry: "set (list_entry d seen e) = set seen \<union> entry_ids d e"
proof (cases "e = ''archive'' \<or> startsWith e ''.''")
  case True
  then show ?thesis by (auto simp: list_entry_def entry_ids_def)
next
  case False
  show ?thesis
  proof (cases "lookup d e")
    case None
    with False show ?thesis
      by (auto simp: list_entry_def entry_ids_def flat_record_def sub_record_def)
  next
    case (Some x)
    show ?thesis
    proof (cases x)
      case (File c)
      with Some False show ?thesis
        by (auto simp: list_entry_def entry_ids_def flat_record_def sub_record_def)
    next
      case (Dir es)
      with Some False show ?thesis
        by (auto simp: list_entry_def entry_ids_def flat_record_def sub_record_def set_sub_dir)
    qed
  qed
qed

lemma set_foldl_entry:
  "set (foldl (list_entry d) seen ns) = set seen \<union> (\<Union>e\<in>set ns. entry_ids d e)"
proof (induction ns arbitrary: seen)
  case Nil then show ?case by simp
next
  case (Cons a ns)
  show ?case unfolding foldl_Cons Cons.IH set_list_entry by auto
qed

lemma node_in_keys: "node_at d (Sub e n) \<noteq> None \<Longrightarrow> e \<in> set (map fst d)"
  by (cases "map_of d e")
    (auto simp: lookup_def dest: map_of_SomeD intro: rev_image_eqI split: if_splits)

lemma set_listMetadata:
  "set (listMetadata (Some d)) =
     {n. VALID_SESSION_ID n \<and> n \<noteq> ''archive''
         \<and> (flat_record d n \<or> (\<exists>e. \<not> startsWith e ''.'' \<and> sub_record d e n))}"
  (is "?L = ?R")
proof
  show "?L \<subseteq> ?R"
    unfolding listMetadata_def option.case set_foldl_entry
    by (auto simp: entry_ids_def)
next
  show "?R \<subseteq> ?L"
  proof
    fix n assume "n \<in> ?R"
    then have v: "VALID_SESSION_ID n" and na: "n \<noteq> ''archive''"
      and alt: "flat_record d n \<or> (\<exists>e. \<not> startsWith e ''.'' \<and> sub_record d e n)" by auto
    from alt have "\<exists>e \<in> set (map fst d). n \<in> entry_ids d e"
    proof
      assume f: "flat_record d n"
      then have "n \<in> set (map fst d)" using isFile_in_keys[of d n] by (simp add: flat_record_def)
      moreover from f v na have "n \<in> entry_ids d n"
        by (simp add: entry_ids_def VALID_not_dot)
      ultimately show ?thesis by blast
    next
      assume "\<exists>e. \<not> startsWith e ''.'' \<and> sub_record d e n"
      then obtain e where nd: "\<not> startsWith e ''.''" and sr: "sub_record d e n" by blast
      from sr have "isFile (node_at d (Sub e n))" by (simp add: sub_record_def)
      then have "node_at d (Sub e n) \<noteq> None" by (auto dest: isFile_cases)
      then have "e \<in> set (map fst d)" by (rule node_in_keys)
      moreover from sr have "e \<noteq> ''archive''" by (auto simp: sub_record_def endsWith_def)
      with nd sr v na have "n \<in> entry_ids d e" by (simp add: entry_ids_def)
      ultimately show ?thesis by blast
    qed
    then show "n \<in> ?L"
      unfolding listMetadata_def option.case set_foldl_entry by auto
  qed
qed

lemma find_in_subdirs_None:
  "find_in_subdirs d sid ns = None \<longleftrightarrow> (\<forall>e\<in>set ns. \<not> sub_record d e sid)"
  by (induction ns) (auto simp: sub_record_def)

lemma resolve_None:
  assumes "VALID_SESSION_ID sid"
  shows "resolveMetadataPath (Some d) sid = Inr None \<longleftrightarrow>
         \<not> flat_record d sid \<and> (\<forall>e. \<not> sub_record d e sid)"
proof -
  have "(\<forall>e\<in>set (map fst d). \<not> sub_record d e sid) \<longleftrightarrow> (\<forall>e. \<not> sub_record d e sid)"
  proof
    assume a: "\<forall>e\<in>set (map fst d). \<not> sub_record d e sid"
    show "\<forall>e. \<not> sub_record d e sid"
    proof (intro allI notI)
      fix e assume sr: "sub_record d e sid"
      then have "isFile (node_at d (Sub e sid))" by (simp add: sub_record_def)
      then have "node_at d (Sub e sid) \<noteq> None" by (auto dest: isFile_cases)
      then have "e \<in> set (map fst d)" by (rule node_in_keys)
      with a sr show False by blast
    qed
  qed blast
  then have "find_in_subdirs d sid (map fst d) = None \<longleftrightarrow> (\<forall>e. \<not> sub_record d e sid)"
    by (simp only: find_in_subdirs_None)
  with assms show ?thesis
    by (simp add: resolveMetadataPath_def VALID_validate flat_record_def)
qed

lemma read_found:
  "(\<exists>m. readMetadata (Some d) sid = Inr (Some m)) \<longleftrightarrow>
   VALID_SESSION_ID sid \<and> (flat_record d sid \<or> (\<exists>e. sub_record d e sid))"
proof (cases "VALID_SESSION_ID sid")
  case False
  then show ?thesis by (simp add: readMetadata_def resolveMetadataPath_def validateSessionId_def)
next
  case True
  show ?thesis
  proof (cases "resolveMetadataPath (Some d) sid = Inr None")
    case n: True
    then have "readMetadata (Some d) sid = Inr None" by (simp add: readMetadata_def)
    with n True show ?thesis by (simp add: resolve_None)
  next
    case n: False
    from True obtain r where r: "resolveMetadataPath (Some d) sid = Inr r"
      by (cases "isFile (lookup d sid)") (simp_all add: resolveMetadataPath_def VALID_validate)
    with n obtain p where p: "resolveMetadataPath (Some d) sid = Inr (Some p)" by (cases r) auto
    from resolve_Some[OF p] obtain c where c: "node_at d p = Some (File c)"
      by (auto dest: isFile_cases)
    with p node_at_short[OF c] have "\<exists>m. readMetadata (Some d) sid = Inr (Some m)"
      by (simp add: readMetadata_def readFileSync_def)
    with n True show ?thesis by (simp add: resolve_None)
  qed
qed

lemma write_flat_frame:
  assumes "writeFileSync d (Flat sid) c = Inr d'"
  shows "node_at d' (Flat sid) = Some (File c) \<and> (\<forall>q. q \<noteq> Flat sid \<longrightarrow> node_at d' q = node_at d q)"
proof -
  from assms have nd: "\<not> isDirectory (map_of d sid)" and d': "d' = AList.update sid (File c) d"
    and l: "\<not> name_too_long sid"
    by (auto split: if_splits)
  have "node_at d' q = node_at d q" if "q \<noteq> Flat sid" for q
  proof (cases q)
    case (Flat n)
    with that d' show ?thesis by (simp add: update_conv' lookup_def)
  next
    case (Sub e n)
    show ?thesis
    proof (cases "e = sid")
      case True
      with nd have "node_at d (Sub e n) = None"
        by (cases "map_of d sid" rule: isDirectory.cases) (auto simp: lookup_def)
      with True Sub d' show ?thesis by (simp add: update_conv' lookup_def)
    next
      case False
      with Sub d' show ?thesis by (simp add: update_conv' lookup_def)
    qed
  qed
  with d' l show ?thesis by (simp add: update_conv')
qed

lemma writeMetadata_flat:
  assumes "writeMetadata s sid m = Inr s'"
  shows "\<exists>d'. s' = Some d' \<and> node_at d' (Flat sid) = Some (File (serializeMetadata (metadata_data m)))
           \<and> (\<forall>q. q \<noteq> Flat sid \<longrightarrow> node_at d' q = node_at (entries s) q)"
proof -
  from assms obtain d' where
    w: "writeFileSync (entries s) (Flat sid) (serializeMetadata (metadata_data m)) = Inr d'"
    and s': "s' = Some d'"
    by (auto simp: writeMetadata_def metadataPath_def validateSessionId_def
        split: sum.splits if_splits)
  from write_flat_frame[OF w] s' show ?thesis by blast
qed

lemma write_sub_frame:
  assumes "writeFileSync d (Sub e sid) c = Inr d'"
  shows "\<forall>q. q \<noteq> Sub e sid \<longrightarrow> readFileSync d' q = readFileSync d q"
proof (intro allI impI)
  fix q assume q: "q \<noteq> Sub e sid"
  from assms obtain es where es: "map_of d e = Some (Dir es)"
    and d': "d' = AList.update e (Dir (AList.update sid (File c) es)) d"
    by (auto split: if_splits option.splits node.splits)
  show "readFileSync d' q = readFileSync d q"
  proof (cases q)
    case (Flat n)
    with es d' show ?thesis by (simp add: readFileSync_def lookup_def update_conv')
  next
    case (Sub e' n')
    with q es d' show ?thesis by (auto simp: readFileSync_def lookup_def update_conv')
  qed
qed

lemma write_flat_read_frame:
  assumes "writeFileSync d (Flat sid) c = Inr d'"
  shows "\<forall>q. q \<noteq> Flat sid \<longrightarrow> readFileSync d' q = readFileSync d q"
  using write_flat_frame[OF assms] by (simp add: readFileSync_def)

text \<open>An update of a record that exists rewrites the file that holds it, and no other
  file.\<close>

lemma update_found:
  assumes "resolveMetadataPath s sid = Inr (Some p)"
  shows "\<exists>d' c0. readFileSync (entries s) p = Inr c0
           \<and> updateMetadata s sid us = Inr (Some d')
           \<and> readFileSync d' p = Inr (serializeMetadata (merge_updates (parseMetadataFile c0) us))
           \<and> (\<forall>q. q \<noteq> p \<longrightarrow> readFileSync d' q = readFileSync (entries s) q)
           \<and> resolveMetadataPath (Some d') sid = Inr (Some p)"
proof -
  from resolve_Some[OF assms] obtain d where d: "s = Some d" and f: "isFile (node_at d p)"
    and alt: "p = Flat sid \<or> (\<exists>e. p = Sub e sid)"
    by (auto dest: find_in_subdirs_Some)
  from f obtain c0 where c0: "node_at d p = Some (File c0)" by (auto dest: isFile_cases)
  let ?c = "serializeMetadata (merge_updates (parseMetadataFile c0) us)"
  from c0 node_at_short[OF c0] have rd: "readFileSync d p = Inr c0"
    by (simp add: readFileSync_def)
  from assms d have p: "resolveMetadataPath (Some d) sid = Inr (Some p)" by simp
  from write_resolved[OF p, of ?c] obtain d' where w: "writeFileSync d p ?c = Inr d'"
    and r: "readFileSync d' p = Inr ?c"
    and p': "resolveMetadataPath (Some d') sid = Inr (Some p)" by auto
  from c0 rd have "read_existing d p = Inr (parseMetadataFile c0)"
    by (simp add: read_existing_def)
  with p w d have u: "updateMetadata s sid us = Inr (Some d')"
    by (simp add: updateMetadata_def Let_def)
  from alt w have fr: "\<forall>q. q \<noteq> p \<longrightarrow> readFileSync d' q = readFileSync d q"
    using write_flat_read_frame write_sub_frame by blast
  from rd u r fr p' d show ?thesis by auto
qed


lemma update_fresh_key: "map_of d k = None \<Longrightarrow> AList.update k v d = d @ [(k, v)]"
  by (induction d) auto

text \<open>An update of a record that does not exist creates the flat file.\<close>

lemma update_missing:
  assumes "VALID_SESSION_ID sid" "\<not> name_too_long sid"
    and "resolveMetadataPath s sid = Inr None"
    and "node_at (entries s) (Flat sid) = None"
  shows "updateMetadata s sid us =
           Inr (Some (entries s @ [(sid, File (serializeMetadata (merge_updates [] us)))]))"
proof -
  from assms(2,4) have m: "map_of (entries s) sid = None" by simp
  from assms(4) have "read_existing (entries s) (Flat sid) = Inr []"
    by (simp add: read_existing_def)
  moreover from m assms(2) have "writeFileSync (entries s) (Flat sid) c =
      Inr (entries s @ [(sid, File c)])" for c
    by (simp add: update_fresh_key)
  ultimately show ?thesis using assms(3) by (simp add: updateMetadata_def Let_def)
qed

text \<open>A read takes the flat file when there is one, and otherwise the file of a project
  subdirectory.\<close>

lemma read_flat_first:
  assumes "VALID_SESSION_ID sid" "node_at d (Flat sid) = Some (File c)"
  shows "readMetadata (Some d) sid = Inr (Some (metadata_of_raw (parseMetadataFile c)))"
  using assms node_at_short[OF assms(2)]
  by (simp add: readMetadata_def resolveMetadataPath_def VALID_validate readFileSync_def)

lemma read_sub:
  assumes "VALID_SESSION_ID sid" "\<not> flat_record d sid" "sub_record d e0 sid"
  shows "\<exists>e c. sub_record d e sid \<and> node_at d (Sub e sid) = Some (File c)
           \<and> readMetadata (Some d) sid = Inr (Some (metadata_of_raw (parseMetadataFile c)))"
proof -
  from assms have "resolveMetadataPath (Some d) sid \<noteq> Inr None" by (auto simp: resolve_None)
  with assms(1,2) obtain p where p: "find_in_subdirs d sid (map fst d) = Some p"
    and r: "resolveMetadataPath (Some d) sid = Inr (Some p)"
    by (auto simp: resolveMetadataPath_def VALID_validate flat_record_def)
  from find_in_subdirs_Some[OF p] obtain e where e: "p = Sub e sid" "endsWith e ''-sessions''"
    "isFile (node_at d (Sub e sid))" by blast
  then obtain c where c: "node_at d (Sub e sid) = Some (File c)" by (auto dest: isFile_cases)
  from r e(1) c node_at_short[OF c]
  have "readMetadata (Some d) sid = Inr (Some (metadata_of_raw (parseMetadataFile c)))"
    by (simp add: readMetadata_def readFileSync_def)
  with e c show ?thesis by (auto simp: sub_record_def)
qed

section \<open>Lemmas on sendMessage\<close>

lemma polls_append [simp]: "polls (xs @ ys) = polls xs + polls ys"
  by (induction xs rule: polls.induct) auto

lemma slept_append [simp]: "slept (xs @ ys) = slept xs + slept ys"
  by (induction xs rule: slept.induct) auto

text \<open>The wait only adds events, at most one poll per round that is left.\<close>

lemma busy_wait_bounded:
  "\<exists>tl. fst (busy_wait env h waited k b evs) = evs @ tl
        \<and> polls tl \<le> (61 - waited) div 2
        \<and> slept tl \<le> 2000 * ((61 - waited) div 2)"
proof (induction env h waited k b evs rule: busy_wait.induct)
  case (1 env h waited k b evs)
  show ?case
  proof (cases "waited < maxWait")
    case False
    then show ?thesis by (subst busy_wait.simps) simp
  next
    case w: True
    then have w60: "waited < 60" by (simp add: maxWait_def)
    show ?thesis
    proof (cases "busy env k")
      case False
      with w w60 show ?thesis by (subst busy_wait.simps) simp
    next
      case True
      from "1.IH"[OF w] True obtain tl where
        tl: "fst (busy_wait env h (waited + pollInterval) (k + 1) True
                (evs @ [IsBusy h, Sleep (pollInterval * 1000)]))
             = (evs @ [IsBusy h, Sleep (pollInterval * 1000)]) @ tl"
        and p: "polls tl \<le> (61 - (waited + pollInterval)) div 2"
        and s: "slept tl \<le> 2000 * ((61 - (waited + pollInterval)) div 2)"
        by auto
      have e: "fst (busy_wait env h waited k b evs)
               = evs @ (IsBusy h # Sleep (pollInterval * 1000) # tl)"
        using w True tl by (subst busy_wait.simps) simp
      have d: "(61 - waited) div 2 = Suc ((61 - (waited + pollInterval)) div 2)"
        using w60 by (simp add: pollInterval_def)
      have "polls (IsBusy h # Sleep (pollInterval * 1000) # tl) \<le> (61 - waited) div 2"
        using p d by simp
      moreover have "slept (IsBusy h # Sleep (pollInterval * 1000) # tl) \<le> 2000 * ((61 - waited) div 2)"
        using s d by (simp add: pollInterval_def)
      ultimately show ?thesis using e by blast
    qed
  qed
qed

text \<open>A session that stays busy uses up the wait.\<close>

lemma busy_wait_exhausted:
  "(\<forall>i. k \<le> i \<and> i < k + (61 - waited) div 2 \<longrightarrow> busy env i) \<Longrightarrow>
   busy_wait env h waited k b evs =
     (evs @ busy_rounds h ((61 - waited) div 2), if waited < 60 then True else b)"
proof (induction env h waited k b evs rule: busy_wait.induct)
  case (1 env h waited k b evs)
  show ?case
  proof (cases "waited < maxWait")
    case False
    then have "(61 - waited) div 2 = 0" by (simp add: maxWait_def)
    with False show ?thesis
      by (subst busy_wait.simps) (simp add: busy_rounds_def maxWait_def)
  next
    case w: True
    then have w60: "waited < 60" by (simp add: maxWait_def)
    have d: "(61 - waited) div 2 = Suc ((61 - (waited + pollInterval)) div 2)"
      using w60 by (simp add: pollInterval_def)
    from "1.prems" d have bk: "busy env k" by simp
    have rest: "\<forall>i. k + 1 \<le> i \<and> i < k + 1 + (61 - (waited + pollInterval)) div 2 \<longrightarrow> busy env i"
      using "1.prems" d by simp
    have "busy_wait env h waited k b evs =
          busy_wait env h (waited + pollInterval) (k + 1) True
                (evs @ [IsBusy h, Sleep (pollInterval * 1000)])"
      using w bk by (subst busy_wait.simps) simp
    also have "\<dots> = ((evs @ [IsBusy h, Sleep (pollInterval * 1000)])
                       @ busy_rounds h ((61 - (waited + pollInterval)) div 2),
                     if waited + pollInterval < 60 then True else True)"
      using "1.IH"[OF w _ rest] bk by simp
    also have "\<dots> = (evs @ busy_rounds h ((61 - waited) div 2), True)"
      unfolding d by (simp add: busy_rounds_def pollInterval_def)
    finally show ?thesis using w60 by simp
  qed
qed

text \<open>A session found idle ends the wait with \<^verbatim>\<open>busy\<close> false.\<close>

lemma busy_wait_idle:
  "(\<exists>i. k \<le> i \<and> i < k + (61 - waited) div 2 \<and> \<not> busy env i) \<Longrightarrow>
   snd (busy_wait env h waited k b evs) = False"
proof (induction env h waited k b evs rule: busy_wait.induct)
  case (1 env h waited k b evs)
  from "1.prems" have "(61 - waited) div 2 \<noteq> 0" by auto
  then have w60: "waited < 60" by auto
  then have w: "waited < maxWait" by (simp add: maxWait_def)
  have d: "(61 - waited) div 2 = Suc ((61 - (waited + pollInterval)) div 2)"
    using w60 by (simp add: pollInterval_def)
  show ?case
  proof (cases "busy env k")
    case False
    with w show ?thesis by (subst busy_wait.simps) simp
  next
    case True
    from "1.prems" obtain i where i: "k \<le> i" "i < k + (61 - waited) div 2" "\<not> busy env i" by blast
    with True have "i \<noteq> k" by auto
    with i d have "\<exists>i. k + 1 \<le> i \<and> i < k + 1 + (61 - (waited + pollInterval)) div 2 \<and> \<not> busy env i"
      by (intro exI[of _ i]) simp
    from "1.IH"[OF w _ this] True w show ?thesis by (subst busy_wait.simps) simp
  qed
qed

lemma tmux_ok:
  "\<forall>n a. \<not> tmux_fails env n a \<Longrightarrow> tmux env args (evs, None) = (evs @ [Tmux args], None)"
  by (simp add: tmux_def)

lemma sleep_ok: "sleep ms (evs, None) = (evs @ [Sleep ms], None)"
  by (simp add: sleep_def)

lemma paste_ok:
  "\<forall>n a. \<not> tmux_fails env n a \<Longrightarrow>
   paste_message env h message (evs, None) =
     (evs @ [WriteTmp (tmpPath env) message, Tmux [''load-buffer'', tmpPath env],
             Tmux [''paste-buffer'', ''-t'', h], UnlinkTmp (tmpPath env)], None)"
  by (simp add: paste_message_def tmux_def)

text \<open>When no command fails, the whole call is the wait, the clearing of the input line,
  the injection and the Enter key.\<close>

lemma sendMessage_ok:
  assumes "\<forall>n a. \<not> tmux_fails env n a"
  shows "sendMessage env h message =
     (fst (busy_wait env h 0 0 False [])
        @ [Tmux [''send-keys'', ''-t'', h, ''C-u''], Sleep 200]
        @ inject_events env h message
        @ [Sleep 300, Tmux [''send-keys'', ''-t'', h, ''Enter'']],
      if snd (busy_wait env h 0 0 False []) then Some (StillBusy h maxWait) else None)"
  by (simp add: sendMessage_def Let_def tmux_ok[OF assms] sleep_ok paste_ok[OF assms]
      inject_events_def)

lemma extends_refl [simp]: "extends r r"
  by (simp add: extends_def)

lemma extends_trans: "extends r r' \<Longrightarrow> extends r' r'' \<Longrightarrow> extends r r''"
  by (auto simp: extends_def)

lemma extends_tmux: "extends r (tmux env args r)"
  by (auto simp: extends_def tmux_def split: option.splits)

lemma extends_sleep: "extends r (sleep ms r)"
  by (auto simp: extends_def sleep_def split: option.splits)

lemma extends_paste: "extends r (paste_message env h message r)"
proof (cases "snd r")
  case (Some e)
  then show ?thesis by (simp add: paste_message_def)
next
  case None
  let ?r1 = "(fst r @ [WriteTmp (tmpPath env) message], None :: send_error option)"
  let ?r2 = "tmux env [''load-buffer'', tmpPath env] ?r1"
  let ?r3 = "tmux env [''paste-buffer'', ''-t'', h] ?r2"
  have "extends r ?r1" using None by (simp add: extends_def)
  moreover have "extends ?r1 ?r3" using extends_tmux extends_trans by blast
  moreover have "extends ?r3 (fst ?r3 @ [UnlinkTmp (tmpPath env)], snd ?r3)"
    by (simp add: extends_def)
  ultimately have "extends r (fst ?r3 @ [UnlinkTmp (tmpPath env)], snd ?r3)"
    using extends_trans by blast
  with None show ?thesis by (simp add: paste_message_def Let_def)
qed

lemma sendMessage_extends:
  "\<exists>r5. extends (fst (busy_wait env h 0 0 False []), None) r5
       \<and> sendMessage env h message =
           (if snd r5 = None \<and> snd (busy_wait env h 0 0 False [])
            then (fst r5, Some (StillBusy h maxWait)) else r5)"
proof -
  let ?w = "busy_wait env h 0 0 False []"
  let ?r1 = "tmux env [''send-keys'', ''-t'', h, ''C-u''] (fst ?w, None)"
  let ?r2 = "sleep 200 ?r1"
  let ?r3 = "if CHR 0x0A \<in> set message \<or> length message > 200
                then paste_message env h message ?r2
                else tmux env [''send-keys'', ''-t'', h, message] ?r2"
  let ?r4 = "sleep 300 ?r3"
  let ?r5 = "tmux env [''send-keys'', ''-t'', h, ''Enter''] ?r4"
  have "extends (fst ?w, None) ?r1" by (rule extends_tmux)
  moreover have "extends ?r1 ?r2" by (rule extends_sleep)
  moreover have "extends ?r2 ?r3" by (simp add: extends_paste extends_tmux)
  moreover have "extends ?r3 ?r4" by (rule extends_sleep)
  moreover have "extends ?r4 ?r5" by (rule extends_tmux)
  ultimately have "extends (fst ?w, None) ?r5" using extends_trans by blast
  moreover have "sendMessage env h message =
           (if snd ?r5 = None \<and> snd ?w then (fst ?r5, Some (StillBusy h maxWait)) else ?r5)"
    by (simp add: sendMessage_def Let_def)
  ultimately show ?thesis by blast
qed

lemma sendMessage_after_wait:
  "\<exists>es. fst (sendMessage env h message) = fst (busy_wait env h 0 0 False []) @ es \<and> polls es = 0"
proof -
  from sendMessage_extends[of env h message] obtain r5 where
    e: "extends (fst (busy_wait env h 0 0 False []), None) r5"
    and s: "fst (sendMessage env h message) = fst r5" by (auto split: if_splits)
  then show ?thesis by (auto simp: extends_def)
qed

lemma sendMessage_busy_fails:
  assumes "snd (busy_wait env h 0 0 False [])"
  shows "snd (sendMessage env h message) \<noteq> None"
proof -
  from sendMessage_extends[of env h message] obtain r5 where
    "sendMessage env h message =
           (if snd r5 = None \<and> snd (busy_wait env h 0 0 False [])
            then (fst r5, Some (StillBusy h maxWait)) else r5)" by blast
  with assms show ?thesis by (cases "snd r5 = None") auto
qed

section \<open>Lemmas on the confirmation loop of the send command\<close>

lemma verifyDelivery_unrolled:
  "verifyDelivery env t 1 0 [] =
     (if settled env (capture env 0) then
        ([Sleep 2000, Tmux [''capture-pane'', ''-t'', t, ''-p'', ''-S'', ''-10'']],
         if isActive env (capture env 0) then Processing else Queued)
      else if settled env (capture env 1) then
        ([Sleep 2000, Tmux [''capture-pane'', ''-t'', t, ''-p'', ''-S'', ''-10''],
          Tmux [''send-keys'', ''-t'', t, ''Enter''], Sleep 1000,
          Sleep 2000, Tmux [''capture-pane'', ''-t'', t, ''-p'', ''-S'', ''-10'']],
         if isActive env (capture env 1) then Processing else Queued)
      else
        ([Sleep 2000, Tmux [''capture-pane'', ''-t'', t, ''-p'', ''-S'', ''-10''],
          Tmux [''send-keys'', ''-t'', t, ''Enter''], Sleep 1000,
          Sleep 2000, Tmux [''capture-pane'', ''-t'', t, ''-p'', ''-S'', ''-10''],
          Tmux [''send-keys'', ''-t'', t, ''Enter''], Sleep 1000,
          Sleep 2000, Tmux [''capture-pane'', ''-t'', t, ''-p'', ''-S'', ''-10'']],
         if isActive env (capture env 2) then Processing
         else if hasQueuedMessage (capture env 2) then Queued else Unconfirmed))"
proof -
  have stop: "\<not> attempt \<le> 3 \<Longrightarrow> verifyDelivery env t attempt k evs = (evs, Unconfirmed)"
    for attempt k evs
    by (subst verifyDelivery.simps) simp
  have step: "attempt \<le> 3 \<Longrightarrow> verifyDelivery env t attempt k evs =
     (if settled env (capture env k) then
        (evs @ [Sleep 2000, Tmux [''capture-pane'', ''-t'', t, ''-p'', ''-S'', ''-10'']],
         if isActive env (capture env k) then Processing else Queued)
      else verifyDelivery env t (attempt + 1) (k + 1)
        (evs @ [Sleep 2000, Tmux [''capture-pane'', ''-t'', t, ''-p'', ''-S'', ''-10'']]
             @ (if attempt < 3
                then [Tmux [''send-keys'', ''-t'', t, ''Enter''], Sleep 1000] else [])))"
    for attempt k evs
    by (subst verifyDelivery.simps) (simp add: settled_def)
  show ?thesis by (simp add: step stop) (auto simp: settled_def numeral_2_eq_2)
qed

lemma verifyDelivery_enters: "enters t (fst (verifyDelivery env t 1 0 [])) \<le> 2"
  unfolding verifyDelivery_unrolled by (simp add: enters_def)

section \<open>Lemmas on the start command\<close>

lemma spawns_simps [simp]:
  "spawns [] = 0" "spawns (evs @ evs') = spawns evs + spawns evs'"
  "spawns (StartDashboard # evs) = spawns evs" "spawns (KillDashboard # evs) = spawns evs"
  "spawns (SmGet x # evs) = spawns evs" "spawns (SpawnOrchestrator p i # evs) = Suc (spawns evs)"
  by (simp_all add: spawns_def)

text \<open>The state in which the command reaches the orchestrator part.\<close>

lemma registerStart_reaches:
  assumes "resolveProject projects projectArg = Inr (projectId, Configured proj)"
    and "pathExists env (project_path proj)"
    and "opt_dashboard opts \<longrightarrow> dashboardStarts env"
    and "opt_orchestrator opts"
  shows "registerStart T env projects projectArg opts =
     start_orchestrator T env projectId (sessionPrefix proj @ ''-orchestrator'') opts
       (if opt_dashboard opts then [StartDashboard] else [])"
  using assms by (auto simp: registerStart_def Let_def)

lemma start_orchestrator_gets:
  "SmGet x \<in> set (fst (start_orchestrator T env projectId sessionId opts evs)) \<Longrightarrow>
   SmGet x \<in> set evs \<or> x = sessionId"
  by (auto simp: start_orchestrator_def Let_def split: if_splits sum.splits)

lemma registerStart_gets:
  assumes "resolveProject projects projectArg = Inr (projectId, Configured proj)"
    and "SmGet x \<in> set (fst (registerStart T env projects projectArg opts))"
  shows "x = sessionPrefix proj @ ''-orchestrator''"
proof -
  from assms have "SmGet x \<in> set (fst (start_orchestrator T env projectId
      (sessionPrefix proj @ ''-orchestrator'') opts (if opt_dashboard opts then [StartDashboard] else [])))"
    by (auto simp: registerStart_def Let_def split: if_splits)
  from start_orchestrator_gets[OF this] show ?thesis by (auto split: if_splits)
qed

lemma resolveProject_own:
  "resolveProject projects projectArg = Inr (projectId, Configured proj) \<Longrightarrow>
   map_of projects projectId = Some proj"
  by (auto simp: resolveProject_def split: if_splits option.splits list.splits prod.splits)

text \<open>The command when a live session is under the fixed ID, and when none is.\<close>

lemma start_live:
  assumes "resolveProject projects projectArg = Inr (projectId, Configured proj)"
    and "pathExists env (project_path proj)"
    and "opt_dashboard opts \<longrightarrow> dashboardStarts env"
    and "opt_orchestrator opts"
    and "sm_get env (sessionPrefix proj @ ''-orchestrator'') = Some s"
    and "session_status s \<notin> T"
  shows "registerStart T env projects projectArg opts =
     ((if opt_dashboard opts then [StartDashboard] else [])
         @ [SmGet (sessionPrefix proj @ ''-orchestrator'')],
      if truthy (opt_prompt opts)
      then Inl (AlreadyRunning (sessionPrefix proj @ ''-orchestrator''))
      else Inr \<lparr> already_running = True,
                 tmuxTarget = attach_target (sessionPrefix proj @ ''-orchestrator'') s \<rparr>)"
proof -
  from assms(5,6) have e: "session_exists T (sm_get env (sessionPrefix proj @ ''-orchestrator''))"
    by (simp add: session_exists_def)
  show ?thesis
    unfolding registerStart_reaches[OF assms(1-4)]
    using e assms(5) by (simp add: start_orchestrator_def Let_def)
qed

lemma start_no_live:
  assumes "resolveProject projects projectArg = Inr (projectId, Configured proj)"
    and "pathExists env (project_path proj)"
    and "opt_dashboard opts \<longrightarrow> dashboardStarts env"
    and "opt_orchestrator opts"
    and "\<not> session_exists T (sm_get env (sessionPrefix proj @ ''-orchestrator''))"
    and "sm_spawnOrchestrator env projectId
           (if truthy (opt_prompt opts) then Some ''Start building. Follow your system prompt.''
            else None) = Inr session"
  shows "registerStart T env projects projectArg opts =
     ((if opt_dashboard opts then [StartDashboard] else [])
         @ [SmGet (sessionPrefix proj @ ''-orchestrator''),
            SpawnOrchestrator projectId
              (if truthy (opt_prompt opts) then Some ''Start building. Follow your system prompt.''
               else None)],
      Inr \<lparr> already_running = False,
            tmuxTarget = attach_target (sessionPrefix proj @ ''-orchestrator'') session \<rparr>)"
  unfolding registerStart_reaches[OF assms(1-4)]
  using assms(5,6) by (simp add: start_orchestrator_def Let_def)

lemma working_live: "session_status (new_orchestrator i h) \<notin> TERMINAL_STATUSES"
  by (simp add: new_orchestrator_def TERMINAL_STATUSES_def)

lemma spawn_fresh:
  assumes "map_of projects projectId = Some proj"
    and "\<not> session_exists TERMINAL_STATUSES (map_of st (sessionPrefix proj @ ''-orchestrator''))"
  shows "spawnOrchestrator projects handle st projectId ip =
     (Inr (new_orchestrator (sessionPrefix proj @ ''-orchestrator'') handle),
      AList.update (sessionPrefix proj @ ''-orchestrator'')
        (new_orchestrator (sessionPrefix proj @ ''-orchestrator'') handle) st)"
  using assms by (auto simp: spawnOrchestrator_def Let_def session_exists_def split: option.splits)

lemma sessions_after_gets:
  "sessions_after projects handle st ((if b then [StartDashboard] else []) @ [SmGet x]) = st"
  by simp

lemma sessions_after_spawn:
  "sessions_after projects handle st ((if b then [StartDashboard] else []) @ [SmGet x, SpawnOrchestrator p i])
     = snd (spawnOrchestrator projects handle st p i)"
  by simp

text \<open>A start that finds no live orchestrator creates the session under the fixed ID.\<close>

lemma start_run_first:
  assumes "resolveProject projects projectArg = Inr (projectId, Configured proj)"
    and "exist (project_path proj)"
    and "opt_dashboard opts \<longrightarrow> dash"
    and "opt_orchestrator opts"
    and "\<not> session_exists TERMINAL_STATUSES (map_of st (sessionPrefix proj @ ''-orchestrator''))"
  shows "start_run projects handle exist dash st projectArg opts =
     ((if opt_dashboard opts then [StartDashboard] else [])
         @ [SmGet (sessionPrefix proj @ ''-orchestrator''),
            SpawnOrchestrator projectId
              (if truthy (opt_prompt opts) then Some ''Start building. Follow your system prompt.''
               else None)],
      Inr \<lparr> already_running = False,
            tmuxTarget = attach_target (sessionPrefix proj @ ''-orchestrator'')
              (new_orchestrator (sessionPrefix proj @ ''-orchestrator'') handle) \<rparr>,
      AList.update (sessionPrefix proj @ ''-orchestrator'')
        (new_orchestrator (sessionPrefix proj @ ''-orchestrator'') handle) st)"
proof -
  let ?env = "sm_env projects handle exist dash st"
  note sp = spawn_fresh[OF resolveProject_own[OF assms(1)] assms(5)]
  have 2: "pathExists ?env (project_path proj)" using assms(2) by (simp add: sm_env_def)
  have 3: "opt_dashboard opts \<longrightarrow> dashboardStarts ?env" using assms(3) by (simp add: sm_env_def)
  have 5: "\<not> session_exists TERMINAL_STATUSES (sm_get ?env (sessionPrefix proj @ ''-orchestrator''))"
    using assms(5) by (simp add: sm_env_def)
  have 6: "sm_spawnOrchestrator ?env projectId
           (if truthy (opt_prompt opts) then Some ''Start building. Follow your system prompt.''
            else None) = Inr (new_orchestrator (sessionPrefix proj @ ''-orchestrator'') handle)"
    by (simp add: sm_env_def sp)
  show ?thesis
    unfolding start_run_def Let_def start_no_live[OF assms(1) 2 3 assms(4) 5 6]
      fst_conv snd_conv sessions_after_spawn sp ..
qed

text \<open>A start that finds a live orchestrator leaves the sessions as they are.\<close>

lemma start_run_live:
  assumes "resolveProject projects projectArg = Inr (projectId, Configured proj)"
    and "exist (project_path proj)"
    and "opt_dashboard opts \<longrightarrow> dash"
    and "opt_orchestrator opts"
    and "map_of st (sessionPrefix proj @ ''-orchestrator'') = Some s"
    and "session_status s \<notin> TERMINAL_STATUSES"
  shows "start_run projects handle exist dash st projectArg opts =
     ((if opt_dashboard opts then [StartDashboard] else [])
         @ [SmGet (sessionPrefix proj @ ''-orchestrator'')],
      (if truthy (opt_prompt opts)
       then Inl (AlreadyRunning (sessionPrefix proj @ ''-orchestrator''))
       else Inr \<lparr> already_running = True,
                  tmuxTarget = attach_target (sessionPrefix proj @ ''-orchestrator'') s \<rparr>),
      st)"
proof -
  let ?env = "sm_env projects handle exist dash st"
  have 2: "pathExists ?env (project_path proj)" using assms(2) by (simp add: sm_env_def)
  have 3: "opt_dashboard opts \<longrightarrow> dashboardStarts ?env" using assms(3) by (simp add: sm_env_def)
  have 5: "sm_get ?env (sessionPrefix proj @ ''-orchestrator'') = Some s"
    using assms(5) by (simp add: sm_env_def)
  show ?thesis
    unfolding start_run_def Let_def start_live[OF assms(1) 2 3 assms(4) 5 assms(6)]
      fst_conv snd_conv sessions_after_gets ..
qed


section \<open>Lemmas on the reconciliation tick\<close>

lemma tick_session_id [simp]: "tracked_id (fst (tick_session g s)) = tracked_id s"
  by (simp add: tick_session_def Let_def)








section \<open>C1: reserving a session ID\<close>

text \<open>
  C1 (as amended). For every valid session ID, \<^verbatim>\<open>reserveSessionId\<close> returns true if and only
  if the ID has at most 255 characters (the longest file name) and no entry existed at
  the flat path \<^verbatim>\<open>{dataDir}/{id}\<close>, and then it has created an empty file there; otherwise
  it returns false and leaves the entries of the directory as they were. Records in
  project subdirectories are not looked at. The decision is one exclusive create step:
  a caller alone behaves as \<^verbatim>\<open>reserveSessionId\<close>; in every interleaving of the steps of
  concurrent callers on the same ID in which some caller has returned, exactly one caller
  has received true when the ID is short enough and the flat path was free at the start,
  and none otherwise; every caller that took both its steps has returned.
\<close>

theorem reserve_exclusive:
  assumes "VALID_SESSION_ID sid"
  shows "reserveSessionId s sid =
           Inr (Some (if length sid \<le> NAME_MAX \<and> node_at (entries s) (Flat sid) = None
                      then entries s @ [(sid, File [])] else entries s),
                length sid \<le> NAME_MAX \<and> node_at (entries s) (Flat sid) = None)
       \<and> reserveSessionId s sid =
           Inr (disk (run_race sid s [c, c]),
                length sid \<le> NAME_MAX \<and> node_at (entries s) (Flat sid) = None)
       \<and> returned (run_race sid s [c, c]) c =
           Some (length sid \<le> NAME_MAX \<and> node_at (entries s) (Flat sid) = None)
       \<and> (length sid \<le> NAME_MAX \<and> node_at (entries s) (Flat sid) = None
            \<and> (\<exists>a. 2 \<le> count_list schedule a)
            \<longrightarrow> (\<exists>!a. returned (run_race sid s schedule) a = Some True))
       \<and> (NAME_MAX < length sid \<or> node_at (entries s) (Flat sid) \<noteq> None
            \<longrightarrow> (\<forall>a. returned (run_race sid s schedule) a \<noteq> Some True))
       \<and> (\<forall>a. 2 \<le> count_list schedule a \<longrightarrow> returned (run_race sid s schedule) a \<noteq> None)"
proof (intro conjI impI allI)
  have free: "(\<not> name_too_long sid \<and> map_of (entries s) sid = None)
                = (length sid \<le> NAME_MAX \<and> node_at (entries s) (Flat sid) = None)"
    using assms by (auto simp: VALID_too_long lookup_def)
  show 1: "reserveSessionId s sid =
           Inr (Some (if length sid \<le> NAME_MAX \<and> node_at (entries s) (Flat sid) = None
                      then entries s @ [(sid, File [])] else entries s),
                length sid \<le> NAME_MAX \<and> node_at (entries s) (Flat sid) = None)"
    unfolding reserve_valid[OF assms] open_excl_mkdirSync free by simp
  show "reserveSessionId s sid =
           Inr (disk (run_race sid s [c, c]),
                length sid \<le> NAME_MAX \<and> node_at (entries s) (Flat sid) = None)"
    unfolding 1 race_alone open_excl_mkdirSync free by simp
  show "returned (run_race sid s [c, c]) c =
           Some (length sid \<le> NAME_MAX \<and> node_at (entries s) (Flat sid) = None)"
    unfolding race_alone open_excl_mkdirSync free by simp
next
  assume a: "length sid \<le> NAME_MAX \<and> node_at (entries s) (Flat sid) = None
            \<and> (\<exists>a. 2 \<le> count_list schedule a)"
  with assms have l: "\<not> name_too_long sid" and m: "map_of (entries s) sid = None"
    by (auto simp: VALID_too_long lookup_def)
  from a obtain a where "2 \<le> count_list schedule a" by blast
  then have "pc (run_race sid s schedule) a = 2" by (simp add: race_pc)
  with race_free[OF m l, of schedule]
  show "\<exists>!a. returned (run_race sid s schedule) a = Some True" by auto
next
  fix a
  assume "NAME_MAX < length sid \<or> node_at (entries s) (Flat sid) \<noteq> None"
  with assms have "name_too_long sid \<or> map_of (entries s) sid \<noteq> None"
    by (auto simp: VALID_too_long lookup_def split: if_splits)
  from race_taken[OF this, of schedule]
  show "returned (run_race sid s schedule) a \<noteq> Some True" by simp
next
  fix a
  assume "2 \<le> count_list schedule a"
  then have "pc (run_race sid s schedule) a = 2" by (simp add: race_pc)
  then show "returned (run_race sid s schedule) a \<noteq> None"
    using race_returned_pc[of sid s schedule a] by blast
qed

text \<open>The theorem at a fresh data directory with three callers whose steps interleave
  (the second caller opens first and wins), at a flat path that is taken, and at an ID of
  256 characters.\<close>

theorem reserve_exclusive_witness:
  "VALID_SESSION_ID ''app-1''
   \<and> reserveSessionId None ''app-1'' = Inr (Some [(''app-1'', File [])], True)
   \<and> length ''app-1'' \<le> NAME_MAX
   \<and> node_at (entries None) (Flat ''app-1'') = None
   \<and> 2 \<le> count_list [0, 1, 2, 1, 0, 2] (1::nat)
   \<and> (\<exists>!a. returned (run_race ''app-1'' None [0, 1, 2, 1, 0, 2]) a = Some True)
   \<and> returned (run_race ''app-1'' None [0, 1, 2, 1, 0, 2]) 1 = Some True
   \<and> node_at (entries (Some [(''app-1'', File [])])) (Flat ''app-1'') \<noteq> None
   \<and> returned (run_race ''app-1'' (Some [(''app-1'', File [])]) [0, 0]) 0 = Some False
   \<and> VALID_SESSION_ID (replicate 256 CHR ''a'')
   \<and> NAME_MAX < length (replicate 256 CHR ''a'')
   \<and> reserveSessionId None (replicate 256 CHR ''a'') = Inr (Some [], False)"
proof -
  have 1: "VALID_SESSION_ID ''app-1''"
    by (simp add: VALID_SESSION_ID_def idChar_def)
  have 2: "node_at (entries None) (Flat ''app-1'') = None" by (simp add: lookup_def)
  have 3: "2 \<le> count_list [0, 1, 2, 1, 0, 2] (1::nat)" by simp
  have 4: "returned (run_race ''app-1'' None [0, 1, 2, 1, 0, 2]) 1 = Some True"
    by code_simp
  have 5: "node_at (entries (Some [(''app-1'', File [])])) (Flat ''app-1'') \<noteq> None"
    by code_simp
  have 6: "length ''app-1'' \<le> NAME_MAX" by (simp add: NAME_MAX_def)
  have 7: "VALID_SESSION_ID (replicate 256 CHR ''a'')"
    by (simp add: VALID_SESSION_ID_def idChar_def list_all_length)
  have 8: "NAME_MAX < length (replicate 256 CHR ''a'')" by (simp add: NAME_MAX_def)
  from reserve_exclusive[OF 1, of None 0 "[0, 1, 2, 1, 0, 2]"] 2 3 6
  have a: "reserveSessionId None ''app-1'' = Inr (Some [(''app-1'', File [])], True)"
    and b: "\<exists>!a. returned (run_race ''app-1'' None [0, 1, 2, 1, 0, 2]) a = Some True"
    by (simp, blast)
  from reserve_exclusive[OF 1, of "Some [(''app-1'', File [])]" 0 "[0, 0]"] 5
  have c: "returned (run_race ''app-1'' (Some [(''app-1'', File [])]) [0, 0]) 0 = Some False"
    by simp
  from reserve_exclusive[OF 7, of None 0 "[]"] 8
  have d: "reserveSessionId None (replicate 256 CHR ''a'') = Inr (Some [], False)"
    by simp
  from 1 2 3 4 5 6 7 8 a b c d show ?thesis by blast
qed

text \<open>
  The claim as stated fails: a record that exists in a project subdirectory only is found
  by \<^verbatim>\<open>readMetadata\<close>, and \<^verbatim>\<open>reserveSessionId\<close> on its ID still returns true.
\<close>

theorem reserve_counterexample:
  "readMetadata (Some [(''app-sessions'', Dir [(''app-1'', File ''status=working'')])]) ''app-1''
     = Inr (Some \<lparr> worktree = [], branch = [], status = ''working'', issue = None, pr = None,
            summary = None, project = None, createdAt = None, runtimeHandle = None \<rparr>)
   \<and> reserveSessionId (Some [(''app-sessions'', Dir [(''app-1'', File ''status=working'')])]) ''app-1''
     = Inr (Some [(''app-sessions'', Dir [(''app-1'', File ''status=working'')]),
                  (''app-1'', File [])], True)"
  by code_simp

section \<open>C2: writing a record and reading it back\<close>

text \<open>
  C2 (as amended). For every valid session ID of at most 255 characters (the longest
  file name) whose flat path is not a directory, and every record whose field values
  contain no line feed and have no white space at either end, \<^verbatim>\<open>writeMetadata(id, R)\<close>
  followed by \<^verbatim>\<open>readMetadata(id)\<close> returns a record in which every non-empty field has
  the value it has in \<^verbatim>\<open>R\<close>, every empty or absent optional field (issue, pr, summary,
  project, createdAt, runtimeHandle) is absent, an empty worktree or branch is the empty
  string, and an empty status is the string \<^verbatim>\<open>unknown\<close>. For a longer valid ID
  \<^verbatim>\<open>writeMetadata\<close> throws the error of the file system, \<^verbatim>\<open>ENAMETOOLONG\<close>.
\<close>

theorem write_read_roundtrip:
  assumes "VALID_SESSION_ID sid"
    and "\<not> isDirectory (node_at (entries s) (Flat sid))"
    and "clean_metadata m"
  shows "write_then_read s sid m =
     (if length sid \<le> NAME_MAX then
        Inr (Some
          \<lparr> worktree = worktree m, branch = branch m,
            status = (if status m = [] then ''unknown'' else status m),
            issue = nonempty (issue m), pr = nonempty (pr m), summary = nonempty (summary m),
            project = nonempty (project m), createdAt = nonempty (createdAt m),
            runtimeHandle = nonempty (runtimeHandle m) \<rparr>)
      else Inl (FsError ''ENAMETOOLONG''))"
proof (cases "length sid \<le> NAME_MAX")
  case True
  with assms(1) have l: "\<not> name_too_long sid" by (simp add: VALID_too_long)
  let ?c = "serializeMetadata (metadata_data m)"
  let ?d = "AList.update sid (File ?c) (entries s)"
  from assms(2) l have w: "writeFileSync (entries s) (Flat sid) ?c = Inr ?d" by simp
  with assms(1) have wm: "writeMetadata s sid m = Inr (Some ?d)"
    by (simp add: writeMetadata_def metadataPath_def VALID_validate)
  from write_flat_then_resolve[OF assms(1) w]
  have "readMetadata (Some ?d) sid = Inr (Some (metadata_of_raw (parseMetadataFile ?c)))"
    by (simp add: readMetadata_def)
  with wm True show ?thesis by (simp add: write_then_read_def metadata_roundtrip[OF assms(3)])
next
  case False
  with assms(1) have l: "name_too_long sid" by (simp add: VALID_too_long)
  then have "writeFileSync (entries s) (Flat sid) c = Inl (FsError ''ENAMETOOLONG'')" for c
    by simp
  with assms(1) have "writeMetadata s sid m = Inl (FsError ''ENAMETOOLONG'')"
    by (simp add: writeMetadata_def metadataPath_def VALID_validate)
  with False show ?thesis by (simp add: write_then_read_def)
qed

text \<open>The theorem at a record with an empty status, an empty pr and a summary that
  contains \<^verbatim>\<open>=\<close>, and at an ID of 256 characters.\<close>

theorem write_read_roundtrip_witness:
  "VALID_SESSION_ID ''app-1''
   \<and> \<not> isDirectory (node_at (entries None) (Flat ''app-1''))
   \<and> clean_metadata
       \<lparr> worktree = ''/tmp/wt/app-1'', branch = ''feat/INT-1234'', status = [],
         issue = Some ''INT-1234'', pr = Some [], summary = Some ''a = b'', project = None,
         createdAt = None, runtimeHandle = None \<rparr>
   \<and> write_then_read None ''app-1''
       \<lparr> worktree = ''/tmp/wt/app-1'', branch = ''feat/INT-1234'', status = [],
         issue = Some ''INT-1234'', pr = Some [], summary = Some ''a = b'', project = None,
         createdAt = None, runtimeHandle = None \<rparr>
     = Inr (Some
       \<lparr> worktree = ''/tmp/wt/app-1'', branch = ''feat/INT-1234'', status = ''unknown'',
         issue = Some ''INT-1234'', pr = None, summary = Some ''a = b'', project = None,
         createdAt = None, runtimeHandle = None \<rparr>)
   \<and> VALID_SESSION_ID (replicate 256 CHR ''a'')
   \<and> \<not> isDirectory (node_at (entries None) (Flat (replicate 256 CHR ''a'')))
   \<and> write_then_read None (replicate 256 CHR ''a'')
       \<lparr> worktree = ''/tmp/wt/app-1'', branch = ''feat/INT-1234'', status = [],
         issue = Some ''INT-1234'', pr = Some [], summary = Some ''a = b'', project = None,
         createdAt = None, runtimeHandle = None \<rparr>
     = Inl (FsError ''ENAMETOOLONG'')"
proof -
  have 1: "VALID_SESSION_ID ''app-1''"
    by (simp add: VALID_SESSION_ID_def idChar_def)
  have 2: "\<not> isDirectory (node_at (entries None) (Flat ''app-1''))"
    by (simp add: lookup_def)
  have 3: "clean_metadata
       \<lparr> worktree = ''/tmp/wt/app-1'', branch = ''feat/INT-1234'', status = [],
         issue = Some ''INT-1234'', pr = Some [], summary = Some ''a = b'', project = None,
         createdAt = None, runtimeHandle = None \<rparr>"
    by (simp add: clean_metadata_def clean_opt_def clean_value_def trimmed_def isWhiteSpace_def)
  have 4: "VALID_SESSION_ID (replicate 256 CHR ''a'')"
    by (simp add: VALID_SESSION_ID_def idChar_def list_all_length)
  have 5: "\<not> isDirectory (node_at (entries None) (Flat (replicate 256 CHR ''a'')))"
    by (simp add: lookup_def)
  from write_read_roundtrip[OF 1 2 3] write_read_roundtrip[OF 4 5 3] 1 2 3 4 5 show ?thesis
    by (simp add: nonempty_def NAME_MAX_def)
qed

text \<open>
  The claim as stated fails: a summary of two lines comes back as its first line, and an
  empty worktree comes back as the empty string, not as an absent field.
\<close>

theorem roundtrip_counterexample:
  "write_then_read None ''app-1''
       \<lparr> worktree = [], branch = ''feat/x'', status = ''working'',
         issue = None, pr = None, summary = Some ''fix login\<newline>add tests'', project = None,
         createdAt = None, runtimeHandle = None \<rparr>
     = Inr (Some
       \<lparr> worktree = [], branch = ''feat/x'', status = ''working'',
         issue = None, pr = None, summary = Some ''fix login'', project = None,
         createdAt = None, runtimeHandle = None \<rparr>)"
  by code_simp

section \<open>C3: updating fields of a record\<close>

text \<open>
  C3 (as amended). For every existing record and every partial update whose keys are
  distinct and well-formed (not empty, no white space at either end, no \<^verbatim>\<open>=\<close> and no line
  feed, not starting with \<^verbatim>\<open>#\<close>, not \<^verbatim>\<open>__proto__\<close>) and whose values contain no line feed
  and have no white space at either end, \<^verbatim>\<open>updateMetadata\<close> succeeds and, in the record
  read back: every key of the partial with a non-empty value has that value; every key
  of the partial set to the empty string is absent; every other field keeps its value,
  except that a field whose stored value is empty is dropped.
\<close>

theorem update_merge:
  assumes "readMetadataRaw s sid = Inr (Some old)"
    and "distinct (map fst updates)"
    and "list_all (\<lambda>(k, v). clean_key k \<and> clean_opt v) updates"
  shows "\<exists>new. update_then_read s sid updates = Inr (Some new) \<and>
     (\<forall>k. obj_get new k =
        (case map_of updates k of
           Some (Some x) \<Rightarrow> if x = [] then None else Some x
         | Some None \<Rightarrow> nonempty (obj_get old k)
         | None \<Rightarrow> nonempty (obj_get old k)))"
proof -
  from readRaw_Some[OF assms(1)] obtain d p c where d: "s = Some d"
    and p: "resolveMetadataPath (Some d) sid = Inr (Some p)"
    and c: "node_at d p = Some (File c)" and old: "old = parseMetadataFile c" by auto
  let ?c' = "serializeMetadata (merge_updates old updates)"
  from write_resolved[OF p, of ?c'] obtain d' where w: "writeFileSync d p ?c' = Inr d'"
    and r: "readFileSync d' p = Inr ?c'" and p': "resolveMetadataPath (Some d') sid = Inr (Some p)"
    by auto
  from c old node_at_short[OF c] have "read_existing d p = Inr old"
    by (simp add: read_existing_def readFileSync_def)
  with d p w have u: "updateMetadata s sid updates = Inr (Some d')"
    by (simp add: updateMetadata_def Let_def)
  from p' r have "readMetadataRaw (Some d') sid = Inr (Some (parseMetadataFile ?c'))"
    by (simp add: readMetadataRaw_def)
  with u have 1: "update_then_read s sid updates = Inr (Some (parseMetadataFile ?c'))"
    by (simp add: update_then_read_def)
  have co: "clean_obj old" unfolding old by (rule clean_obj_parse)
  have 2: "obj_get (parseMetadataFile ?c') k =
        (case map_of updates k of
           Some (Some x) \<Rightarrow> if x = [] then None else Some x
         | Some None \<Rightarrow> nonempty (obj_get old k)
         | None \<Rightarrow> nonempty (obj_get old k))" for k
    unfolding obj_get_def merge_then_parse[OF co assms(2,3)]
    by (simp add: nonempty_def split: option.splits)
  from 1 2 show ?thesis by blast
qed

text \<open>The theorem at a record kept in a project subdirectory: status is replaced, summary is
  removed, an \<^verbatim>\<open>undefined\<close> issue changes nothing, and branch stays.\<close>

theorem update_merge_witness:
  "readMetadataRaw (Some [(''app-sessions'', Dir [(''app-1'', File ''status=working\<newline>branch=feat/x\<newline>summary=old'')])]) ''app-1''
     = Inr (Some [(''status'', ''working''), (''branch'', ''feat/x''), (''summary'', ''old'')])
   \<and> distinct (map fst [(''status'', Some ''merged''), (''summary'', Some []), (''issue'', None)])
   \<and> list_all (\<lambda>(k, v). clean_key k \<and> clean_opt v)
        [(''status'', Some ''merged''), (''summary'', Some []), (''issue'', None)]
   \<and> (\<exists>new. update_then_read
          (Some [(''app-sessions'', Dir [(''app-1'', File ''status=working\<newline>branch=feat/x\<newline>summary=old'')])])
          ''app-1'' [(''status'', Some ''merged''), (''summary'', Some []), (''issue'', None)]
          = Inr (Some new)
        \<and> obj_get new ''status'' = Some ''merged'' \<and> obj_get new ''summary'' = None
        \<and> obj_get new ''branch'' = Some ''feat/x'' \<and> obj_get new ''issue'' = None)"
proof -
  let ?s = "Some [(''app-sessions'', Dir [(''app-1'', File ''status=working\<newline>branch=feat/x\<newline>summary=old'')])]"
  let ?old = "[(''status'', ''working''), (''branch'', ''feat/x''), (''summary'', ''old'')]"
  let ?u = "[(''status'', Some ''merged''), (''summary'', Some []), (''issue'', None)]"
  have 1: "readMetadataRaw ?s ''app-1'' = Inr (Some ?old)" by code_simp
  have 2: "distinct (map fst ?u)" by simp
  have 3: "list_all (\<lambda>(k, v). clean_key k \<and> clean_opt v) ?u"
    by (simp add: clean_key_def clean_opt_def clean_value_def trimmed_def isWhiteSpace_def)
  from update_merge[OF 1 2 3] obtain new where n: "update_then_read ?s ''app-1'' ?u = Inr (Some new)"
    and k: "\<And>k. obj_get new k =
        (case map_of ?u k of
           Some (Some x) \<Rightarrow> if x = [] then None else Some x
         | Some None \<Rightarrow> nonempty (obj_get ?old k)
         | None \<Rightarrow> nonempty (obj_get ?old k))" by blast
  have "obj_get new ''status'' = Some ''merged''" unfolding k by simp
  moreover have "obj_get new ''summary'' = None" unfolding k by simp
  moreover have "obj_get new ''branch'' = Some ''feat/x''"
    unfolding k by (simp add: obj_get_def nonempty_def)
  moreover have "obj_get new ''issue'' = None"
    unfolding k by (simp add: obj_get_def nonempty_def)
  ultimately show ?thesis using 1 2 3 n by blast
qed

text \<open>
  The claim as stated fails: with a summary of two lines in the partial, the summary read
  back is the first line only, the status, which the partial does not name, changes from
  \<^verbatim>\<open>working\<close> to \<^verbatim>\<open>merged\<close>, and the branch field of empty value is gone.
\<close>

theorem update_counterexample:
  "update_then_read (Some [(''app-1'', File ''status=working\<newline>branch='')]) ''app-1''
     [(''summary'', Some ''all done\<newline>status=merged'')]
   = Inr (Some [(''status'', ''merged''), (''summary'', ''all done'')])
   \<and> readMetadataRaw (Some [(''app-1'', File ''status=working\<newline>branch='')]) ''app-1''
   = Inr (Some [(''status'', ''working''), (''branch'', [])])"
  by code_simp

section \<open>C4: the wait before sending\<close>

text \<open>
  C4. Every call of \<^verbatim>\<open>sendMessage\<close> of the tmux runtime polls \<^verbatim>\<open>isBusy\<close> at most 30 times,
  two seconds apart, and sleeps at most 60 seconds in the wait. When the session is busy
  at all 30 polls the call never resolves: if no \<^verbatim>\<open>tmux\<close> command fails, it clears the
  input line, injects the message, sends Enter, and then rejects with the "still busy"
  error; if a command fails it rejects with that failure. When a poll finds the session
  idle and no command fails, the call resolves.
\<close>

theorem send_bounded_wait:
  "polls (fst (sendMessage env h message)) \<le> 30
   \<and> slept (fst (busy_wait env h 0 0 False [])) \<le> maxWait * 1000
   \<and> ((\<forall>k<30. busy env k) \<longrightarrow> snd (sendMessage env h message) \<noteq> None)
   \<and> ((\<forall>k<30. busy env k) \<and> (\<forall>n a. \<not> tmux_fails env n a) \<longrightarrow>
        sendMessage env h message =
          (busy_rounds h 30 @ [Tmux [''send-keys'', ''-t'', h, ''C-u''], Sleep 200]
             @ inject_events env h message
             @ [Sleep 300, Tmux [''send-keys'', ''-t'', h, ''Enter'']],
           Some (StillBusy h 60)))
   \<and> ((\<exists>k<30. \<not> busy env k) \<and> (\<forall>n a. \<not> tmux_fails env n a) \<longrightarrow>
        snd (sendMessage env h message) = None)"
proof (intro conjI impI)
  from busy_wait_bounded[of env h 0 0 False "[]"] obtain tl where
    tl: "fst (busy_wait env h 0 0 False []) = tl" and p: "polls tl \<le> 30"
    and s: "slept tl \<le> 60000" by auto
  from sendMessage_after_wait[of env h message] tl p
  show "polls (fst (sendMessage env h message)) \<le> 30" by auto
  from tl s show "slept (fst (busy_wait env h 0 0 False [])) \<le> maxWait * 1000"
    by (simp add: maxWait_def)
next
  assume "\<forall>k<30. busy env k"
  then have "busy_wait env h 0 0 False [] = ([] @ busy_rounds h ((61 - 0) div 2), if (0::nat) < 60 then True else False)"
    by (intro busy_wait_exhausted) simp
  then have "snd (busy_wait env h 0 0 False [])" by simp
  then show "snd (sendMessage env h message) \<noteq> None" by (rule sendMessage_busy_fails)
next
  assume a: "(\<forall>k<30. busy env k) \<and> (\<forall>n a. \<not> tmux_fails env n a)"
  then have "busy_wait env h 0 0 False [] = ([] @ busy_rounds h ((61 - 0) div 2), if (0::nat) < 60 then True else False)"
    by (intro busy_wait_exhausted) simp
  then have w: "busy_wait env h 0 0 False [] = (busy_rounds h 30, True)" by simp
  from a have "\<forall>n a. \<not> tmux_fails env n a" by blast
  from sendMessage_ok[OF this, of h message] w
  show "sendMessage env h message =
          (busy_rounds h 30 @ [Tmux [''send-keys'', ''-t'', h, ''C-u''], Sleep 200]
             @ inject_events env h message
             @ [Sleep 300, Tmux [''send-keys'', ''-t'', h, ''Enter'']],
           Some (StillBusy h 60))"
    by (simp add: maxWait_def)
next
  assume a: "(\<exists>k<30. \<not> busy env k) \<and> (\<forall>n a. \<not> tmux_fails env n a)"
  then have "\<exists>i. 0 \<le> i \<and> i < 0 + (61 - 0) div 2 \<and> \<not> busy env i" by simp
  then have w: "snd (busy_wait env h 0 0 False []) = False" by (rule busy_wait_idle)
  from a have "\<forall>n a. \<not> tmux_fails env n a" by blast
  from sendMessage_ok[OF this, of h message] w
  show "snd (sendMessage env h message) = None" by simp
qed

text \<open>The theorem at a session that is always busy, and at one that is idle at the third
  poll.\<close>

theorem send_bounded_wait_witness:
  "(\<forall>k. busy \<lparr> busy = (\<lambda>k. True), tmux_fails = (\<lambda>n a. False), tmpPath = ''/tmp/ao-send-0.txt'' \<rparr> k)
   \<and> (\<forall>n a. \<not> tmux_fails \<lparr> busy = (\<lambda>k. True), tmux_fails = (\<lambda>n a. False), tmpPath = ''/tmp/ao-send-0.txt'' \<rparr> n a)
   \<and> sendMessage \<lparr> busy = (\<lambda>k. True), tmux_fails = (\<lambda>n a. False), tmpPath = ''/tmp/ao-send-0.txt'' \<rparr>
        ''app-1'' ''fix the build''
     = (busy_rounds ''app-1'' 30
          @ [Tmux [''send-keys'', ''-t'', ''app-1'', ''C-u''], Sleep 200,
             Tmux [''send-keys'', ''-t'', ''app-1'', ''fix the build''],
             Sleep 300, Tmux [''send-keys'', ''-t'', ''app-1'', ''Enter'']],
        Some (StillBusy ''app-1'' 60))
   \<and> \<not> busy \<lparr> busy = (\<lambda>k. k < 2), tmux_fails = (\<lambda>n a. False), tmpPath = ''/tmp/ao-send-0.txt'' \<rparr> 2
   \<and> snd (sendMessage \<lparr> busy = (\<lambda>k. k < 2), tmux_fails = (\<lambda>n a. False), tmpPath = ''/tmp/ao-send-0.txt'' \<rparr>
        ''app-1'' ''fix the build'') = None"
proof -
  let ?e = "\<lparr> busy = (\<lambda>k. True), tmux_fails = (\<lambda>n a. False), tmpPath = ''/tmp/ao-send-0.txt'' \<rparr>"
  let ?f = "\<lparr> busy = (\<lambda>k. k < 2), tmux_fails = (\<lambda>n a. False), tmpPath = ''/tmp/ao-send-0.txt'' \<rparr>"
  have 1: "\<forall>k. busy ?e k" by simp
  have 2: "\<forall>n a. \<not> tmux_fails ?e n a" by simp
  have 3: "\<not> busy ?f 2" by simp
  have 4: "\<forall>n a. \<not> tmux_fails ?f n a" by simp
  from send_bounded_wait[of ?e "''app-1''" "''fix the build''"] 1 2
  have a: "sendMessage ?e ''app-1'' ''fix the build''
     = (busy_rounds ''app-1'' 30
          @ [Tmux [''send-keys'', ''-t'', ''app-1'', ''C-u''], Sleep 200,
             Tmux [''send-keys'', ''-t'', ''app-1'', ''fix the build''],
             Sleep 300, Tmux [''send-keys'', ''-t'', ''app-1'', ''Enter'']],
        Some (StillBusy ''app-1'' 60))"
    by (simp add: inject_events_def)
  have "\<exists>k<30. \<not> busy ?f k" using 3 by (intro exI[of _ 2]) simp
  with send_bounded_wait[of ?f "''app-1''" "''fix the build''"] 4
  have b: "snd (sendMessage ?f ''app-1'' ''fix the build'') = None" by blast
  from 1 2 3 a b show ?thesis by blast
qed

section \<open>C5: confirming the delivery\<close>

text \<open>
  C5 (as amended). \<^verbatim>\<open>sendMessage\<close> of the tmux runtime does not confirm a delivery: after
  its wait it never polls the session again, and when no \<^verbatim>\<open>tmux\<close> command fails its events
  after the wait are the clearing of the input line, a sleep of 200 ms, the injection, a
  sleep of 300 ms and one Enter key command. The bounded confirmation is the loop at the end of the send
  command of the CLI, which drives tmux itself: it captures the pane at most three
  times, the first time after a sleep of 2 s and each later time 3 s after it has sent
  Enter again (sleeps of 1 s and 2 s); it stops as soon as a capture shows the agent
  active or a queued message; it sends Enter again after each of the first two captures
  that show neither (at most two Enter keys in the loop), and reports the delivery as
  unconfirmed when the third capture shows neither.
\<close>

theorem delivery_confirmation:
  "(\<exists>es. fst (sendMessage env h message) = fst (busy_wait env h 0 0 False []) @ es \<and> polls es = 0)
   \<and> ((\<forall>n a. \<not> tmux_fails env n a) \<longrightarrow>
        fst (sendMessage env h message) =
          fst (busy_wait env h 0 0 False [])
            @ [Tmux [''send-keys'', ''-t'', h, ''C-u''], Sleep 200]
            @ inject_events env h message
            @ [Sleep 300, Tmux [''send-keys'', ''-t'', h, ''Enter'']])
   \<and> enters t (fst (verifyDelivery cenv t 1 0 [])) \<le> 2
   \<and> verifyDelivery cenv t 1 0 [] =
     (if settled cenv (capture cenv 0) then
        ([Sleep 2000, Tmux [''capture-pane'', ''-t'', t, ''-p'', ''-S'', ''-10'']],
         if isActive cenv (capture cenv 0) then Processing else Queued)
      else if settled cenv (capture cenv 1) then
        ([Sleep 2000, Tmux [''capture-pane'', ''-t'', t, ''-p'', ''-S'', ''-10''],
          Tmux [''send-keys'', ''-t'', t, ''Enter''], Sleep 1000,
          Sleep 2000, Tmux [''capture-pane'', ''-t'', t, ''-p'', ''-S'', ''-10'']],
         if isActive cenv (capture cenv 1) then Processing else Queued)
      else
        ([Sleep 2000, Tmux [''capture-pane'', ''-t'', t, ''-p'', ''-S'', ''-10''],
          Tmux [''send-keys'', ''-t'', t, ''Enter''], Sleep 1000,
          Sleep 2000, Tmux [''capture-pane'', ''-t'', t, ''-p'', ''-S'', ''-10''],
          Tmux [''send-keys'', ''-t'', t, ''Enter''], Sleep 1000,
          Sleep 2000, Tmux [''capture-pane'', ''-t'', t, ''-p'', ''-S'', ''-10'']],
         if isActive cenv (capture cenv 2) then Processing
         else if hasQueuedMessage (capture cenv 2) then Queued else Unconfirmed))"
proof (intro conjI impI)
  show "\<exists>es. fst (sendMessage env h message) = fst (busy_wait env h 0 0 False []) @ es \<and> polls es = 0"
    by (rule sendMessage_after_wait)
next
  assume "\<forall>n a. \<not> tmux_fails env n a"
  then show "fst (sendMessage env h message) =
          fst (busy_wait env h 0 0 False [])
            @ [Tmux [''send-keys'', ''-t'', h, ''C-u''], Sleep 200]
            @ inject_events env h message
            @ [Sleep 300, Tmux [''send-keys'', ''-t'', h, ''Enter'']]"
    by (simp add: sendMessage_ok)
next
  show "enters t (fst (verifyDelivery cenv t 1 0 [])) \<le> 2" by (rule verifyDelivery_enters)
next
  show "verifyDelivery cenv t 1 0 [] =
     (if settled cenv (capture cenv 0) then
        ([Sleep 2000, Tmux [''capture-pane'', ''-t'', t, ''-p'', ''-S'', ''-10'']],
         if isActive cenv (capture cenv 0) then Processing else Queued)
      else if settled cenv (capture cenv 1) then
        ([Sleep 2000, Tmux [''capture-pane'', ''-t'', t, ''-p'', ''-S'', ''-10''],
          Tmux [''send-keys'', ''-t'', t, ''Enter''], Sleep 1000,
          Sleep 2000, Tmux [''capture-pane'', ''-t'', t, ''-p'', ''-S'', ''-10'']],
         if isActive cenv (capture cenv 1) then Processing else Queued)
      else
        ([Sleep 2000, Tmux [''capture-pane'', ''-t'', t, ''-p'', ''-S'', ''-10''],
          Tmux [''send-keys'', ''-t'', t, ''Enter''], Sleep 1000,
          Sleep 2000, Tmux [''capture-pane'', ''-t'', t, ''-p'', ''-S'', ''-10''],
          Tmux [''send-keys'', ''-t'', t, ''Enter''], Sleep 1000,
          Sleep 2000, Tmux [''capture-pane'', ''-t'', t, ''-p'', ''-S'', ''-10'']],
         if isActive cenv (capture cenv 2) then Processing
         else if hasQueuedMessage (capture cenv 2) then Queued else Unconfirmed))"
    by (rule verifyDelivery_unrolled)
qed

text \<open>The theorem at a two-line message sent to an idle session, and at a pane that stays
  at a shell prompt.\<close>

theorem delivery_confirmation_witness:
  "(\<forall>n a. \<not> tmux_fails \<lparr> busy = (\<lambda>k. False), tmux_fails = (\<lambda>n a. False), tmpPath = ''/tmp/ao-send-7.txt'' \<rparr> n a)
   \<and> fst (sendMessage \<lparr> busy = (\<lambda>k. False), tmux_fails = (\<lambda>n a. False), tmpPath = ''/tmp/ao-send-7.txt'' \<rparr>
        ''app-1'' ''line one\<newline>line two'')
     = [IsBusy ''app-1'', Tmux [''send-keys'', ''-t'', ''app-1'', ''C-u''], Sleep 200,
        WriteTmp ''/tmp/ao-send-7.txt'' ''line one\<newline>line two'',
        Tmux [''load-buffer'', ''/tmp/ao-send-7.txt''],
        Tmux [''paste-buffer'', ''-t'', ''app-1''],
        UnlinkTmp ''/tmp/ao-send-7.txt'',
        Sleep 300, Tmux [''send-keys'', ''-t'', ''app-1'', ''Enter'']]
   \<and> verifyDelivery \<lparr> capture = (\<lambda>k. ''$ ''), detectActivity = (\<lambda>out. ''idle'') \<rparr> ''app-1'' 1 0 []
     = ([Sleep 2000, Tmux [''capture-pane'', ''-t'', ''app-1'', ''-p'', ''-S'', ''-10''],
          Tmux [''send-keys'', ''-t'', ''app-1'', ''Enter''], Sleep 1000,
          Sleep 2000, Tmux [''capture-pane'', ''-t'', ''app-1'', ''-p'', ''-S'', ''-10''],
          Tmux [''send-keys'', ''-t'', ''app-1'', ''Enter''], Sleep 1000,
          Sleep 2000, Tmux [''capture-pane'', ''-t'', ''app-1'', ''-p'', ''-S'', ''-10'']],
        Unconfirmed)"
proof -
  let ?e = "\<lparr> busy = (\<lambda>k. False), tmux_fails = (\<lambda>n a. False), tmpPath = ''/tmp/ao-send-7.txt'' \<rparr>"
  let ?c = "\<lparr> capture = (\<lambda>k. ''$ ''), detectActivity = (\<lambda>out. ''idle'') \<rparr>"
  have 1: "\<forall>n a. \<not> tmux_fails ?e n a" by simp
  have w: "fst (busy_wait ?e ''app-1'' 0 0 False []) = [IsBusy ''app-1'']"
    by (subst busy_wait.simps) (simp add: maxWait_def)
  have s: "\<not> settled ?c ''$ ''" by code_simp
  have q: "\<not> hasQueuedMessage ''$ ''" by code_simp
  have a: "\<not> isActive ?c ''$ ''" by code_simp
  from delivery_confirmation[of ?e "''app-1''" "''line one\<newline>line two''" "''app-1''" ?c] 1 w s q a
  show ?thesis by (simp add: inject_events_def)
qed

text \<open>
  The claim as stated fails for the runtime: a message sent to an idle session is followed
  by one Enter key, and the call resolves without having looked at the session again.
\<close>

theorem delivery_confirmation_counterexample:
  "sendMessage \<lparr> busy = (\<lambda>k. False), tmux_fails = (\<lambda>n a. False), tmpPath = ''/tmp/ao-send-7.txt'' \<rparr>
        ''app-1'' ''hello''
     = ([IsBusy ''app-1'', Tmux [''send-keys'', ''-t'', ''app-1'', ''C-u''], Sleep 200,
         Tmux [''send-keys'', ''-t'', ''app-1'', ''hello''],
         Sleep 300, Tmux [''send-keys'', ''-t'', ''app-1'', ''Enter'']], None)"
  by code_simp

section \<open>C6: one orchestrator session per project\<close>

text \<open>
  C6. The start command looks the orchestrator session up under the fixed ID
  \<^verbatim>\<open>{sessionPrefix}-orchestrator\<close>, and under no other ID. When the session manager has a
  session under that ID whose status is not terminal, the command never calls
  \<^verbatim>\<open>spawnOrchestrator\<close>: without a prompt (or with an empty one) it reports the existing
  session, with its own runtime handle as attach target; with a prompt it fails with the
  error "Orchestrator session ... is already running". When the session manager has no
  live session under that ID and \<^verbatim>\<open>spawnOrchestrator\<close> returns a session, the command calls
  \<^verbatim>\<open>spawnOrchestrator\<close> once, for the project, and reports the new session. Over the
  session manager as the specification describes it, whose \<^verbatim>\<open>spawnOrchestrator\<close> creates
  the session under the fixed ID: a start that finds no live orchestrator leaves one
  session under the fixed ID and every other session as it was, and a start after it
  calls no \<^verbatim>\<open>spawnOrchestrator\<close> and leaves the sessions as they are; without a prompt it
  reports the session of the first start, with a prompt it fails with the conflict
  error.
\<close>

theorem orchestrator_singleton:
  assumes "resolveProject projects projectArg = Inr (projectId, Configured proj)"
    and "pathExists env (project_path proj)"
    and "opt_dashboard opts \<longrightarrow> dashboardStarts env"
    and "opt_orchestrator opts"
  shows "(\<forall>x. SmGet x \<in> set (fst (registerStart T env' projects projectArg opts'))
            \<longrightarrow> x = sessionPrefix proj @ ''-orchestrator'')
       \<and> (sm_get env (sessionPrefix proj @ ''-orchestrator'') = Some s \<and> session_status s \<notin> T
            \<longrightarrow> fst (registerStart T env projects projectArg opts) =
                   (if opt_dashboard opts then [StartDashboard] else [])
                     @ [SmGet (sessionPrefix proj @ ''-orchestrator'')]
                \<and> spawns (fst (registerStart T env projects projectArg opts)) = 0
                \<and> (truthy (opt_prompt opts) \<longrightarrow>
                     snd (registerStart T env projects projectArg opts)
                       = Inl (AlreadyRunning (sessionPrefix proj @ ''-orchestrator'')))
                \<and> (\<not> truthy (opt_prompt opts) \<longrightarrow>
                     snd (registerStart T env projects projectArg opts)
                       = Inr \<lparr> already_running = True,
                               tmuxTarget = attach_target (sessionPrefix proj @ ''-orchestrator'') s \<rparr>))
       \<and> (\<not> session_exists T (sm_get env (sessionPrefix proj @ ''-orchestrator''))
            \<and> sm_spawnOrchestrator env projectId
                 (if truthy (opt_prompt opts)
                  then Some ''Start building. Follow your system prompt.'' else None) = Inr session
            \<longrightarrow> registerStart T env projects projectArg opts =
                  ((if opt_dashboard opts then [StartDashboard] else [])
                     @ [SmGet (sessionPrefix proj @ ''-orchestrator''),
                        SpawnOrchestrator projectId
                          (if truthy (opt_prompt opts)
                           then Some ''Start building. Follow your system prompt.'' else None)],
                   Inr \<lparr> already_running = False,
                         tmuxTarget = attach_target (sessionPrefix proj @ ''-orchestrator'') session \<rparr>))
       \<and> (exist (project_path proj) \<and> (opt_dashboard opts \<longrightarrow> dash)
            \<and> \<not> session_exists TERMINAL_STATUSES (map_of st (sessionPrefix proj @ ''-orchestrator''))
            \<and> opt_orchestrator later \<and> (opt_dashboard later \<longrightarrow> dash)
            \<longrightarrow> start_run projects handle exist dash st projectArg opts =
                  ((if opt_dashboard opts then [StartDashboard] else [])
                     @ [SmGet (sessionPrefix proj @ ''-orchestrator''),
                        SpawnOrchestrator projectId
                          (if truthy (opt_prompt opts)
                           then Some ''Start building. Follow your system prompt.'' else None)],
                   Inr \<lparr> already_running = False,
                         tmuxTarget = attach_target (sessionPrefix proj @ ''-orchestrator'')
                           (new_orchestrator (sessionPrefix proj @ ''-orchestrator'') handle) \<rparr>,
                   AList.update (sessionPrefix proj @ ''-orchestrator'')
                     (new_orchestrator (sessionPrefix proj @ ''-orchestrator'') handle) st)
                \<and> session_id (new_orchestrator (sessionPrefix proj @ ''-orchestrator'') handle)
                     = sessionPrefix proj @ ''-orchestrator''
                \<and> (\<forall>x. map_of (AList.update (sessionPrefix proj @ ''-orchestrator'')
                               (new_orchestrator (sessionPrefix proj @ ''-orchestrator'') handle) st) x
                         = (if x = sessionPrefix proj @ ''-orchestrator''
                            then Some (new_orchestrator (sessionPrefix proj @ ''-orchestrator'') handle)
                            else map_of st x))
                \<and> start_run projects handle exist dash
                     (AList.update (sessionPrefix proj @ ''-orchestrator'')
                        (new_orchestrator (sessionPrefix proj @ ''-orchestrator'') handle) st)
                     projectArg later =
                  ((if opt_dashboard later then [StartDashboard] else [])
                     @ [SmGet (sessionPrefix proj @ ''-orchestrator'')],
                   (if truthy (opt_prompt later)
                    then Inl (AlreadyRunning (sessionPrefix proj @ ''-orchestrator''))
                    else Inr \<lparr> already_running = True,
                               tmuxTarget = attach_target (sessionPrefix proj @ ''-orchestrator'')
                                 (new_orchestrator (sessionPrefix proj @ ''-orchestrator'') handle) \<rparr>),
                   AList.update (sessionPrefix proj @ ''-orchestrator'')
                     (new_orchestrator (sessionPrefix proj @ ''-orchestrator'') handle) st))"
proof (intro conjI impI)
  show "\<forall>x. SmGet x \<in> set (fst (registerStart T env' projects projectArg opts'))
            \<longrightarrow> x = sessionPrefix proj @ ''-orchestrator''"
    using registerStart_gets[OF assms(1)] by blast
next
  assume a: "sm_get env (sessionPrefix proj @ ''-orchestrator'') = Some s \<and> session_status s \<notin> T"
  then have 5: "sm_get env (sessionPrefix proj @ ''-orchestrator'') = Some s"
    and 6: "session_status s \<notin> T" by blast+
  note r = start_live[OF assms 5 6]
  show "fst (registerStart T env projects projectArg opts) =
          (if opt_dashboard opts then [StartDashboard] else [])
            @ [SmGet (sessionPrefix proj @ ''-orchestrator'')]"
    unfolding r by simp
  show "spawns (fst (registerStart T env projects projectArg opts)) = 0"
    unfolding r by simp
  show "snd (registerStart T env projects projectArg opts)
          = Inl (AlreadyRunning (sessionPrefix proj @ ''-orchestrator''))"
    if "truthy (opt_prompt opts)" unfolding r using that by simp
  show "snd (registerStart T env projects projectArg opts)
          = Inr \<lparr> already_running = True,
                  tmuxTarget = attach_target (sessionPrefix proj @ ''-orchestrator'') s \<rparr>"
    if "\<not> truthy (opt_prompt opts)" unfolding r using that by simp
next
  assume a: "\<not> session_exists T (sm_get env (sessionPrefix proj @ ''-orchestrator''))
            \<and> sm_spawnOrchestrator env projectId
                 (if truthy (opt_prompt opts)
                  then Some ''Start building. Follow your system prompt.'' else None) = Inr session"
  then have 5: "\<not> session_exists T (sm_get env (sessionPrefix proj @ ''-orchestrator''))"
    and 6: "sm_spawnOrchestrator env projectId
                 (if truthy (opt_prompt opts)
                  then Some ''Start building. Follow your system prompt.'' else None) = Inr session"
    by blast+
  show "registerStart T env projects projectArg opts =
                  ((if opt_dashboard opts then [StartDashboard] else [])
                     @ [SmGet (sessionPrefix proj @ ''-orchestrator''),
                        SpawnOrchestrator projectId
                          (if truthy (opt_prompt opts)
                           then Some ''Start building. Follow your system prompt.'' else None)],
                   Inr \<lparr> already_running = False,
                         tmuxTarget = attach_target (sessionPrefix proj @ ''-orchestrator'') session \<rparr>)"
    by (rule start_no_live[OF assms 5 6])
next
  let ?fixed = "sessionPrefix proj @ ''-orchestrator''"
  let ?new = "new_orchestrator ?fixed handle"
  let ?st1 = "AList.update ?fixed ?new st"
  assume a: "exist (project_path proj) \<and> (opt_dashboard opts \<longrightarrow> dash)
            \<and> \<not> session_exists TERMINAL_STATUSES (map_of st ?fixed)
            \<and> opt_orchestrator later \<and> (opt_dashboard later \<longrightarrow> dash)"
  then have 2: "exist (project_path proj)" and 3: "opt_dashboard opts \<longrightarrow> dash"
    and 5: "\<not> session_exists TERMINAL_STATUSES (map_of st ?fixed)"
    and 4: "opt_orchestrator later" and 7: "opt_dashboard later \<longrightarrow> dash" by blast+
  show "start_run projects handle exist dash st projectArg opts =
                  ((if opt_dashboard opts then [StartDashboard] else [])
                     @ [SmGet ?fixed,
                        SpawnOrchestrator projectId
                          (if truthy (opt_prompt opts)
                           then Some ''Start building. Follow your system prompt.'' else None)],
                   Inr \<lparr> already_running = False, tmuxTarget = attach_target ?fixed ?new \<rparr>,
                   ?st1)"
    by (rule start_run_first[where exist=exist and dash=dash, OF assms(1) 2 3 assms(4) 5])
  show "session_id ?new = ?fixed" by (simp add: new_orchestrator_def)
  show m: "\<forall>x. map_of ?st1 x = (if x = ?fixed then Some ?new else map_of st x)"
    by (simp add: update_conv')
  from m have g: "map_of ?st1 ?fixed = Some ?new" by simp
  show "start_run projects handle exist dash ?st1 projectArg later =
                  ((if opt_dashboard later then [StartDashboard] else []) @ [SmGet ?fixed],
                   (if truthy (opt_prompt later)
                    then Inl (AlreadyRunning ?fixed)
                    else Inr \<lparr> already_running = True, tmuxTarget = attach_target ?fixed ?new \<rparr>),
                   ?st1)"
    by (rule start_run_live[where exist=exist and dash=dash, OF assms(1) 2 7 4 g working_live])
qed

text \<open>The theorem at a project whose orchestrator session is working, started once without
  a prompt and once with one; at a session manager that has no session yet; and, over the
  session manager of the specification, at a first start followed by a start without a
  prompt and by a start with one.\<close>

theorem orchestrator_singleton_witness:
  "resolveProject [(''app'', \<lparr> project_name = ''App'', project_path = ''/repo/app'', sessionPrefix = ''app'' \<rparr>)] None
     = Inr (''app'', Configured \<lparr> project_name = ''App'', project_path = ''/repo/app'', sessionPrefix = ''app'' \<rparr>)
   \<and> ''working'' \<notin> TERMINAL_STATUSES
   \<and> registerStart TERMINAL_STATUSES
        \<lparr> pathExists = (\<lambda>p. True), dashboardStarts = True,
          sm_get = (\<lambda>i. if i = ''app-orchestrator''
                          then Some \<lparr> session_id = ''app-orchestrator'', session_status = ''working'',
                                      runtimeHandle_id = Some ''a1b2c3-app-orchestrator'' \<rparr>
                          else None),
          sm_spawnOrchestrator = (\<lambda>p i. Inl ''not called'') \<rparr>
        [(''app'', \<lparr> project_name = ''App'', project_path = ''/repo/app'', sessionPrefix = ''app'' \<rparr>)]
        None \<lparr> opt_dashboard = True, opt_orchestrator = True, opt_prompt = None \<rparr>
     = ([StartDashboard, SmGet ''app-orchestrator''],
        Inr \<lparr> already_running = True, tmuxTarget = ''a1b2c3-app-orchestrator'' \<rparr>)
   \<and> registerStart TERMINAL_STATUSES
        \<lparr> pathExists = (\<lambda>p. True), dashboardStarts = True,
          sm_get = (\<lambda>i. if i = ''app-orchestrator''
                          then Some \<lparr> session_id = ''app-orchestrator'', session_status = ''working'',
                                      runtimeHandle_id = Some ''a1b2c3-app-orchestrator'' \<rparr>
                          else None),
          sm_spawnOrchestrator = (\<lambda>p i. Inl ''not called'') \<rparr>
        [(''app'', \<lparr> project_name = ''App'', project_path = ''/repo/app'', sessionPrefix = ''app'' \<rparr>)]
        None \<lparr> opt_dashboard = True, opt_orchestrator = True, opt_prompt = Some ''build a todo app'' \<rparr>
     = ([StartDashboard, SmGet ''app-orchestrator''], Inl (AlreadyRunning ''app-orchestrator''))
   \<and> registerStart TERMINAL_STATUSES
        \<lparr> pathExists = (\<lambda>p. True), dashboardStarts = True, sm_get = (\<lambda>i. None),
          sm_spawnOrchestrator =
            (\<lambda>p i. Inr \<lparr> session_id = ''app-orchestrator'', session_status = ''working'',
                           runtimeHandle_id = Some ''a1b2c3-app-orchestrator'' \<rparr>) \<rparr>
        [(''app'', \<lparr> project_name = ''App'', project_path = ''/repo/app'', sessionPrefix = ''app'' \<rparr>)]
        None \<lparr> opt_dashboard = True, opt_orchestrator = True, opt_prompt = None \<rparr>
     = ([StartDashboard, SmGet ''app-orchestrator'', SpawnOrchestrator ''app'' None],
        Inr \<lparr> already_running = False, tmuxTarget = ''a1b2c3-app-orchestrator'' \<rparr>)
   \<and> start_run
        [(''app'', \<lparr> project_name = ''App'', project_path = ''/repo/app'', sessionPrefix = ''app'' \<rparr>)]
        ''a1b2c3-app-orchestrator'' (\<lambda>p. True) True [] None
        \<lparr> opt_dashboard = True, opt_orchestrator = True, opt_prompt = None \<rparr>
     = ([StartDashboard, SmGet ''app-orchestrator'', SpawnOrchestrator ''app'' None],
        Inr \<lparr> already_running = False, tmuxTarget = ''a1b2c3-app-orchestrator'' \<rparr>,
        [(''app-orchestrator'',
          \<lparr> session_id = ''app-orchestrator'', session_status = ''working'',
            runtimeHandle_id = Some ''a1b2c3-app-orchestrator'' \<rparr>)])
   \<and> start_run
        [(''app'', \<lparr> project_name = ''App'', project_path = ''/repo/app'', sessionPrefix = ''app'' \<rparr>)]
        ''a1b2c3-app-orchestrator'' (\<lambda>p. True) True
        [(''app-orchestrator'',
          \<lparr> session_id = ''app-orchestrator'', session_status = ''working'',
            runtimeHandle_id = Some ''a1b2c3-app-orchestrator'' \<rparr>)] None
        \<lparr> opt_dashboard = True, opt_orchestrator = True, opt_prompt = None \<rparr>
     = ([StartDashboard, SmGet ''app-orchestrator''],
        Inr \<lparr> already_running = True, tmuxTarget = ''a1b2c3-app-orchestrator'' \<rparr>,
        [(''app-orchestrator'',
          \<lparr> session_id = ''app-orchestrator'', session_status = ''working'',
            runtimeHandle_id = Some ''a1b2c3-app-orchestrator'' \<rparr>)])
   \<and> start_run
        [(''app'', \<lparr> project_name = ''App'', project_path = ''/repo/app'', sessionPrefix = ''app'' \<rparr>)]
        ''a1b2c3-app-orchestrator'' (\<lambda>p. True) True
        [(''app-orchestrator'',
          \<lparr> session_id = ''app-orchestrator'', session_status = ''working'',
            runtimeHandle_id = Some ''a1b2c3-app-orchestrator'' \<rparr>)] None
        \<lparr> opt_dashboard = True, opt_orchestrator = True, opt_prompt = Some ''build a todo app'' \<rparr>
     = ([StartDashboard, SmGet ''app-orchestrator''],
        Inl (AlreadyRunning ''app-orchestrator''),
        [(''app-orchestrator'',
          \<lparr> session_id = ''app-orchestrator'', session_status = ''working'',
            runtimeHandle_id = Some ''a1b2c3-app-orchestrator'' \<rparr>)])"
proof -
  let ?p = "\<lparr> project_name = ''App'', project_path = ''/repo/app'', sessionPrefix = ''app'' \<rparr>"
  let ?s = "\<lparr> session_id = ''app-orchestrator'', session_status = ''working'',
                                      runtimeHandle_id = Some ''a1b2c3-app-orchestrator'' \<rparr>"
  let ?env = "\<lparr> pathExists = (\<lambda>p. True), dashboardStarts = True,
          sm_get = (\<lambda>i. if i = ''app-orchestrator'' then Some ?s else None),
          sm_spawnOrchestrator = (\<lambda>p i. Inl ''not called'') \<rparr>"
  let ?env3 = "\<lparr> pathExists = (\<lambda>p. True), dashboardStarts = True, sm_get = (\<lambda>i. None),
          sm_spawnOrchestrator = (\<lambda>p i. Inr ?s) \<rparr>"
  let ?o1 = "\<lparr> opt_dashboard = True, opt_orchestrator = True, opt_prompt = None \<rparr>"
  let ?o2 = "\<lparr> opt_dashboard = True, opt_orchestrator = True, opt_prompt = Some ''build a todo app'' \<rparr>"
  let ?h = "''a1b2c3-app-orchestrator''"
  have 1: "resolveProject [(''app'', ?p)] None = Inr (''app'', Configured ?p)"
    by (simp add: resolveProject_def truthy_def)
  have 2: "pathExists ?env (project_path ?p)" "pathExists ?env3 (project_path ?p)" by simp_all
  have 3: "opt_dashboard ?o1 \<longrightarrow> dashboardStarts ?env" "opt_dashboard ?o2 \<longrightarrow> dashboardStarts ?env"
    "opt_dashboard ?o1 \<longrightarrow> dashboardStarts ?env3"
    by simp_all
  have 4: "opt_orchestrator ?o1" "opt_orchestrator ?o2" by simp_all
  have w: "''working'' \<notin> TERMINAL_STATUSES" by code_simp
  have 5: "sm_get ?env (sessionPrefix ?p @ ''-orchestrator'') = Some ?s
           \<and> session_status ?s \<notin> TERMINAL_STATUSES" using w by simp
  have 6: "\<not> session_exists TERMINAL_STATUSES (sm_get ?env3 (sessionPrefix ?p @ ''-orchestrator''))
           \<and> sm_spawnOrchestrator ?env3 ''app''
                 (if truthy (opt_prompt ?o1)
                  then Some ''Start building. Follow your system prompt.'' else None) = Inr ?s"
    by (simp add: session_exists_def)
  have 7: "(\<lambda>p. True) (project_path ?p) \<and> (opt_dashboard ?o1 \<longrightarrow> True)
            \<and> \<not> session_exists TERMINAL_STATUSES (map_of [] (sessionPrefix ?p @ ''-orchestrator''))
            \<and> opt_orchestrator ?o1 \<and> (opt_dashboard ?o1 \<longrightarrow> True)"
    by (simp add: session_exists_def)
  have 8: "(\<lambda>p. True) (project_path ?p) \<and> (opt_dashboard ?o1 \<longrightarrow> True)
            \<and> \<not> session_exists TERMINAL_STATUSES (map_of [] (sessionPrefix ?p @ ''-orchestrator''))
            \<and> opt_orchestrator ?o2 \<and> (opt_dashboard ?o2 \<longrightarrow> True)"
    by (simp add: session_exists_def)
  have n: "new_orchestrator (sessionPrefix ?p @ ''-orchestrator'') ?h = ?s"
    by (simp add: new_orchestrator_def)
  have st1: "AList.update (sessionPrefix ?p @ ''-orchestrator'') ?s [] = [(''app-orchestrator'', ?s)]"
    by simp
  have t: "attach_target (sessionPrefix ?p @ ''-orchestrator'') ?s = ?h"
    by (simp add: attach_target_def truthy_def nullish_def)
  have i: "sessionPrefix ?p @ ''-orchestrator'' = ''app-orchestrator''" by simp
  have p1: "\<not> truthy (opt_prompt ?o1)" "truthy (opt_prompt ?o2)" by (simp_all add: truthy_def)
  have d: "opt_dashboard ?o1" "opt_dashboard ?o2" by simp_all
  note a = orchestrator_singleton[where T=TERMINAL_STATUSES and s="?s" and st="[]"
      and exist="\<lambda>p. True" and dash=True and handle="?h" and later="?o1" and session="?s",
      OF 1 2(1) 3(1) 4(1)]
  note b = orchestrator_singleton[where T=TERMINAL_STATUSES and s="?s" and st="[]"
      and exist="\<lambda>p. True" and dash=True and handle="?h" and later="?o2" and session="?s",
      OF 1 2(1) 3(2) 4(2)]
  note c = orchestrator_singleton[where T=TERMINAL_STATUSES and s="?s" and st="[]"
      and exist="\<lambda>p. True" and dash=True and handle="?h" and later="?o2" and session="?s",
      OF 1 2(2) 3(3) 4(1)]
  note a2 = mp[OF a[THEN conjunct2, THEN conjunct1] 5]
  note b2 = mp[OF b[THEN conjunct2, THEN conjunct1] 5]
  have fa: "fst (registerStart TERMINAL_STATUSES ?env [(''app'', ?p)] None ?o1)
            = [StartDashboard, SmGet ''app-orchestrator'']"
    using a2[THEN conjunct1] by simp
  have sa: "snd (registerStart TERMINAL_STATUSES ?env [(''app'', ?p)] None ?o1)
            = Inr \<lparr> already_running = True, tmuxTarget = ?h \<rparr>"
    using mp[OF a2[THEN conjunct2, THEN conjunct2, THEN conjunct2] p1(1)] unfolding t .
  have ra: "registerStart TERMINAL_STATUSES ?env [(''app'', ?p)] None ?o1
     = ([StartDashboard, SmGet ''app-orchestrator''],
        Inr \<lparr> already_running = True, tmuxTarget = ?h \<rparr>)"
    by (rule prod_eqI) (simp_all only: fa sa fst_conv snd_conv)
  have fb: "fst (registerStart TERMINAL_STATUSES ?env [(''app'', ?p)] None ?o2)
            = [StartDashboard, SmGet ''app-orchestrator'']"
    using b2[THEN conjunct1] by simp
  have sb: "snd (registerStart TERMINAL_STATUSES ?env [(''app'', ?p)] None ?o2)
            = Inl (AlreadyRunning ''app-orchestrator'')"
    using mp[OF b2[THEN conjunct2, THEN conjunct2, THEN conjunct1] p1(2)] unfolding i .
  have rb: "registerStart TERMINAL_STATUSES ?env [(''app'', ?p)] None ?o2
     = ([StartDashboard, SmGet ''app-orchestrator''], Inl (AlreadyRunning ''app-orchestrator''))"
    by (rule prod_eqI) (simp_all only: fb sb fst_conv snd_conv)
  have rc: "registerStart TERMINAL_STATUSES ?env3 [(''app'', ?p)] None ?o1
     = ([StartDashboard, SmGet ''app-orchestrator'', SpawnOrchestrator ''app'' None],
        Inr \<lparr> already_running = False, tmuxTarget = ?h \<rparr>)"
    using mp[OF c[THEN conjunct2, THEN conjunct2, THEN conjunct1] 6]
    by (simp add: attach_target_def truthy_def nullish_def)
  note a4 = mp[OF a[THEN conjunct2, THEN conjunct2, THEN conjunct2] 7]
  note e = orchestrator_singleton[where T=TERMINAL_STATUSES and s="?s" and st="[]"
      and exist="\<lambda>p. True" and dash=True and handle="?h" and later="?o2" and session="?s",
      OF 1 2(1) 3(1) 4(1)]
  note b4 = mp[OF e[THEN conjunct2, THEN conjunct2, THEN conjunct2] 8]
  have r1: "start_run [(''app'', ?p)] ?h (\<lambda>p. True) True [] None ?o1
     = ([StartDashboard, SmGet ''app-orchestrator'', SpawnOrchestrator ''app'' None],
        Inr \<lparr> already_running = False, tmuxTarget = ?h \<rparr>, [(''app-orchestrator'', ?s)])"
    using a4[THEN conjunct1]
    by (simp add: attach_target_def truthy_def nullish_def new_orchestrator_def)
  have r2: "start_run [(''app'', ?p)] ?h (\<lambda>p. True) True [(''app-orchestrator'', ?s)] None ?o1
     = ([StartDashboard, SmGet ''app-orchestrator''],
        Inr \<lparr> already_running = True, tmuxTarget = ?h \<rparr>, [(''app-orchestrator'', ?s)])"
    using a4[THEN conjunct2, THEN conjunct2, THEN conjunct2]
    by (simp add: attach_target_def truthy_def nullish_def new_orchestrator_def)
  have r3: "start_run [(''app'', ?p)] ?h (\<lambda>p. True) True [(''app-orchestrator'', ?s)] None ?o2
     = ([StartDashboard, SmGet ''app-orchestrator''],
        Inl (AlreadyRunning ''app-orchestrator''), [(''app-orchestrator'', ?s)])"
    using b4[THEN conjunct2, THEN conjunct2, THEN conjunct2]
    by (simp add: attach_target_def truthy_def nullish_def new_orchestrator_def)
  from 1 w ra rb rc r1 r2 r3 show ?thesis by blast
qed

section \<open>C7: the two layouts\<close>

text \<open>
  C7 (as amended). \<^verbatim>\<open>listMetadata\<close> returns, without duplicates, exactly the valid session
  IDs other than \<^verbatim>\<open>archive\<close> that have a file in the flat layout or in a subdirectory whose
  name ends in \<^verbatim>\<open>-sessions\<close> and does not start with a dot. \<^verbatim>\<open>readMetadata\<close> finds a
  record exactly when the ID is valid and a file for it exists in the flat layout or in
  any subdirectory whose name ends in \<^verbatim>\<open>-sessions\<close>; it reads the flat file when there is
  one, and otherwise the file of such a subdirectory. \<^verbatim>\<open>writeMetadata\<close> writes the flat
  file and nothing else. \<^verbatim>\<open>updateMetadata\<close> rewrites the file where the record was found
  and changes no other file: for a record found in a subdirectory it rewrites that file
  and creates no flat file. For a valid ID of at most 255 characters that has no record in
  either layout and no entry at the flat path, \<^verbatim>\<open>updateMetadata\<close> creates the flat file,
  with the non-empty fields of the update.
\<close>

theorem layouts:
  "distinct (listMetadata s)
   \<and> listMetadata None = []
   \<and> set (listMetadata (Some d)) =
       {n. VALID_SESSION_ID n \<and> n \<noteq> ''archive''
           \<and> (flat_record d n \<or> (\<exists>e. \<not> startsWith e ''.'' \<and> sub_record d e n))}
   \<and> ((\<exists>m. readMetadata (Some d) sid = Inr (Some m)) \<longleftrightarrow>
        VALID_SESSION_ID sid \<and> (flat_record d sid \<or> (\<exists>e. sub_record d e sid)))
   \<and> (VALID_SESSION_ID sid \<and> node_at d (Flat sid) = Some (File c) \<longrightarrow>
        readMetadata (Some d) sid = Inr (Some (metadata_of_raw (parseMetadataFile c))))
   \<and> (VALID_SESSION_ID sid \<and> \<not> flat_record d sid \<and> sub_record d e0 sid \<longrightarrow>
        (\<exists>e c. sub_record d e sid \<and> node_at d (Sub e sid) = Some (File c)
           \<and> readMetadata (Some d) sid = Inr (Some (metadata_of_raw (parseMetadataFile c)))))
   \<and> (writeMetadata s sid m = Inr s' \<longrightarrow>
        (\<exists>d'. s' = Some d'
           \<and> node_at d' (Flat sid) = Some (File (serializeMetadata (metadata_data m)))
           \<and> (\<forall>q. q \<noteq> Flat sid \<longrightarrow> node_at d' q = node_at (entries s) q)))
   \<and> (resolveMetadataPath s sid = Inr (Some p) \<longrightarrow>
        (\<exists>d' c0. readFileSync (entries s) p = Inr c0
           \<and> updateMetadata s sid us = Inr (Some d')
           \<and> readFileSync d' p = Inr (serializeMetadata (merge_updates (parseMetadataFile c0) us))
           \<and> (\<forall>q. q \<noteq> p \<longrightarrow> readFileSync d' q = readFileSync (entries s) q)
           \<and> resolveMetadataPath (Some d') sid = Inr (Some p)
           \<and> (p \<noteq> Flat sid \<longrightarrow> \<not> flat_record d' sid)))
   \<and> (VALID_SESSION_ID sid \<and> length sid \<le> NAME_MAX
        \<and> resolveMetadataPath s sid = Inr None \<and> node_at (entries s) (Flat sid) = None \<longrightarrow>
        updateMetadata s sid us =
          Inr (Some (entries s @ [(sid, File (serializeMetadata (merge_updates [] us)))])))"
proof (intro conjI impI)
  show "distinct (listMetadata s)" by (rule distinct_listMetadata)
  show "listMetadata None = []" by (simp add: listMetadata_def)
  show "set (listMetadata (Some d)) =
       {n. VALID_SESSION_ID n \<and> n \<noteq> ''archive''
           \<and> (flat_record d n \<or> (\<exists>e. \<not> startsWith e ''.'' \<and> sub_record d e n))}"
    by (rule set_listMetadata)
  show "(\<exists>m. readMetadata (Some d) sid = Inr (Some m)) \<longleftrightarrow>
        VALID_SESSION_ID sid \<and> (flat_record d sid \<or> (\<exists>e. sub_record d e sid))"
    by (rule read_found)
next
  assume "VALID_SESSION_ID sid \<and> node_at d (Flat sid) = Some (File c)"
  then show "readMetadata (Some d) sid = Inr (Some (metadata_of_raw (parseMetadataFile c)))"
    by (simp add: read_flat_first)
next
  assume "VALID_SESSION_ID sid \<and> \<not> flat_record d sid \<and> sub_record d e0 sid"
  then show "\<exists>e c. sub_record d e sid \<and> node_at d (Sub e sid) = Some (File c)
           \<and> readMetadata (Some d) sid = Inr (Some (metadata_of_raw (parseMetadataFile c)))"
    using read_sub[of sid d e0] by blast
next
  assume "writeMetadata s sid m = Inr s'"
  then show "\<exists>d'. s' = Some d'
           \<and> node_at d' (Flat sid) = Some (File (serializeMetadata (metadata_data m)))
           \<and> (\<forall>q. q \<noteq> Flat sid \<longrightarrow> node_at d' q = node_at (entries s) q)"
    by (rule writeMetadata_flat)
next
  assume a: "resolveMetadataPath s sid = Inr (Some p)"
  from update_found[OF a, of us] obtain d' c0 where
    1: "readFileSync (entries s) p = Inr c0" "updateMetadata s sid us = Inr (Some d')"
      "readFileSync d' p = Inr (serializeMetadata (merge_updates (parseMetadataFile c0) us))"
      "\<forall>q. q \<noteq> p \<longrightarrow> readFileSync d' q = readFileSync (entries s) q"
    and p': "resolveMetadataPath (Some d') sid = Inr (Some p)"
    by blast
  from resolve_Some[OF p'] have "p \<noteq> Flat sid \<longrightarrow> \<not> flat_record d' sid"
    by (auto simp: flat_record_def)
  with 1 p' show "\<exists>d' c0. readFileSync (entries s) p = Inr c0
           \<and> updateMetadata s sid us = Inr (Some d')
           \<and> readFileSync d' p = Inr (serializeMetadata (merge_updates (parseMetadataFile c0) us))
           \<and> (\<forall>q. q \<noteq> p \<longrightarrow> readFileSync d' q = readFileSync (entries s) q)
           \<and> resolveMetadataPath (Some d') sid = Inr (Some p)
           \<and> (p \<noteq> Flat sid \<longrightarrow> \<not> flat_record d' sid)"
    by blast
next
  assume "VALID_SESSION_ID sid \<and> length sid \<le> NAME_MAX
        \<and> resolveMetadataPath s sid = Inr None \<and> node_at (entries s) (Flat sid) = None"
  then show "updateMetadata s sid us =
          Inr (Some (entries s @ [(sid, File (serializeMetadata (merge_updates [] us)))]))"
    by (intro update_missing) (simp_all add: VALID_too_long)
qed

text \<open>The theorem at a directory with one record in a project subdirectory and one flat
  record: the record \<^verbatim>\<open>app-1\<close> is read and updated in the subdirectory, the record
  \<^verbatim>\<open>app-2\<close> is read from its flat file, and an update of \<^verbatim>\<open>app-3\<close>, which has no
  record, creates its flat file.\<close>

theorem layouts_witness:
  "writeMetadata (Some [(''app-sessions'', Dir [(''app-1'', File ''status=working'')]),
                        (''app-2'', File ''status=done'')]) ''app-1''
       \<lparr> worktree = ''/w'', branch = ''main'', status = ''working'', issue = None, pr = None,
         summary = None, project = None, createdAt = None, runtimeHandle = None \<rparr>
     = Inr (Some [(''app-sessions'', Dir [(''app-1'', File ''status=working'')]),
                  (''app-2'', File ''status=done''),
                  (''app-1'', File ''worktree=/w\<newline>branch=main\<newline>status=working\<newline>'')])
   \<and> node_at [(''app-sessions'', Dir [(''app-1'', File ''status=working'')]),
                (''app-2'', File ''status=done''),
                (''app-1'', File ''worktree=/w\<newline>branch=main\<newline>status=working\<newline>'')]
         (Sub ''app-sessions'' ''app-1'')
       = node_at [(''app-sessions'', Dir [(''app-1'', File ''status=working'')]),
                  (''app-2'', File ''status=done'')] (Sub ''app-sessions'' ''app-1'')
   \<and> resolveMetadataPath (Some [(''app-sessions'', Dir [(''app-1'', File ''status=working'')]),
                        (''app-2'', File ''status=done'')]) ''app-1''
     = Inr (Some (Sub ''app-sessions'' ''app-1''))
   \<and> (\<exists>d'. updateMetadata (Some [(''app-sessions'', Dir [(''app-1'', File ''status=working'')]),
                        (''app-2'', File ''status=done'')]) ''app-1'' [(''status'', Some ''merged'')]
                = Inr (Some d')
           \<and> readFileSync d' (Sub ''app-sessions'' ''app-1'') = Inr ''status=merged\<newline>''
           \<and> readFileSync d' (Flat ''app-2'') = Inr ''status=done''
           \<and> \<not> flat_record d' ''app-1'')
   \<and> (\<exists>e c. node_at [(''app-sessions'', Dir [(''app-1'', File ''status=working'')]),
                        (''app-2'', File ''status=done'')] (Sub e ''app-1'') = Some (File c)
         \<and> readMetadata (Some [(''app-sessions'', Dir [(''app-1'', File ''status=working'')]),
                        (''app-2'', File ''status=done'')]) ''app-1''
             = Inr (Some (metadata_of_raw (parseMetadataFile c))))
   \<and> readMetadata (Some [(''app-sessions'', Dir [(''app-1'', File ''status=working'')]),
                        (''app-2'', File ''status=done'')]) ''app-2''
       = Inr (Some (metadata_of_raw (parseMetadataFile ''status=done'')))
   \<and> resolveMetadataPath (Some [(''app-sessions'', Dir [(''app-1'', File ''status=working'')]),
                        (''app-2'', File ''status=done'')]) ''app-3'' = Inr None
   \<and> updateMetadata (Some [(''app-sessions'', Dir [(''app-1'', File ''status=working'')]),
                        (''app-2'', File ''status=done'')]) ''app-3'' [(''status'', Some ''spawning'')]
       = Inr (Some [(''app-sessions'', Dir [(''app-1'', File ''status=working'')]),
                    (''app-2'', File ''status=done''),
                    (''app-3'', File ''status=spawning\<newline>'')])
   \<and> listMetadata (Some [(''app-sessions'', Dir [(''app-1'', File ''status=working'')]),
                        (''app-2'', File ''status=done'')]) = [''app-1'', ''app-2'']"
proof -
  let ?d = "[(''app-sessions'', Dir [(''app-1'', File ''status=working'')]),
             (''app-2'', File ''status=done'')]"
  let ?m = "\<lparr> worktree = ''/w'', branch = ''main'', status = ''working'', issue = None, pr = None,
         summary = None, project = None, createdAt = None, runtimeHandle = None \<rparr>"
  let ?d1 = "[(''app-sessions'', Dir [(''app-1'', File ''status=working'')]),
                  (''app-2'', File ''status=done''),
                  (''app-1'', File ''worktree=/w\<newline>branch=main\<newline>status=working\<newline>'')]"
  let ?p = "Sub ''app-sessions'' ''app-1''"
  let ?us = "[(''status'', Some ''merged'')]"
  have 1: "writeMetadata (Some ?d) ''app-1'' ?m = Inr (Some ?d1)" by code_simp
  have 2: "resolveMetadataPath (Some ?d) ''app-1'' = Inr (Some ?p)" by code_simp
  have 3: "VALID_SESSION_ID ''app-1'' \<and> \<not> flat_record ?d ''app-1''
            \<and> sub_record ?d ''app-sessions'' ''app-1''" by code_simp
  have 4: "listMetadata (Some ?d) = [''app-1'', ''app-2'']" by code_simp
  have 5: "VALID_SESSION_ID ''app-2'' \<and> node_at ?d (Flat ''app-2'') = Some (File ''status=done'')"
    by code_simp
  have 6: "VALID_SESSION_ID ''app-3'' \<and> length ''app-3'' \<le> NAME_MAX
        \<and> resolveMetadataPath (Some ?d) ''app-3'' = Inr None
        \<and> node_at (entries (Some ?d)) (Flat ''app-3'') = None" by code_simp
  have 7: "serializeMetadata (merge_updates (parseMetadataFile ''status=working'') ?us)
             = ''status=merged\<newline>''" by code_simp
  have 8: "serializeMetadata (merge_updates [] [(''status'', Some ''spawning'')])
             = ''status=spawning\<newline>''" by code_simp
  have 9: "readFileSync ?d ?p = Inr ''status=working''
           \<and> readFileSync ?d (Flat ''app-2'') = Inr ''status=done''" by code_simp
  note t = layouts[of "Some ?d" ?d "''app-1''" "''status=working''" "''app-sessions''" ?m "Some ?d1" ?p ?us]
  note t6 = t[THEN conjunct2, THEN conjunct2, THEN conjunct2, THEN conjunct2, THEN conjunct2,
      THEN conjunct1]
  note t8 = t[THEN conjunct2, THEN conjunct2, THEN conjunct2, THEN conjunct2, THEN conjunct2,
      THEN conjunct2, THEN conjunct2, THEN conjunct1]
  have ne: "?p \<noteq> Flat ''app-1''" by simp
  from mp[OF t8 2] ne obtain d' c0 where u: "readFileSync (entries (Some ?d)) ?p = Inr c0"
      "updateMetadata (Some ?d) ''app-1'' ?us = Inr (Some d')"
      "readFileSync d' ?p = Inr (serializeMetadata (merge_updates (parseMetadataFile c0) ?us))"
      "\<forall>q. q \<noteq> ?p \<longrightarrow> readFileSync d' q = readFileSync (entries (Some ?d)) q"
      "\<not> flat_record d' ''app-1''"
    by blast
  from u(1) 9 have c0: "c0 = ''status=working''" by (simp only: entries_Some) simp
  have "Flat ''app-2'' \<noteq> ?p" by simp
  with u(4) have "readFileSync d' (Flat ''app-2'') = readFileSync (entries (Some ?d)) (Flat ''app-2'')"
    by blast
  with 9 have r2: "readFileSync d' (Flat ''app-2'') = Inr ''status=done''"
    by (simp only: entries_Some)
  from u(3) have "readFileSync d' ?p = Inr ''status=merged\<newline>''" unfolding c0 7 .
  with u(2,5) r2 have a: "\<exists>d'. updateMetadata (Some ?d) ''app-1'' ?us = Inr (Some d')
           \<and> readFileSync d' ?p = Inr ''status=merged\<newline>''
           \<and> readFileSync d' (Flat ''app-2'') = Inr ''status=done''
           \<and> \<not> flat_record d' ''app-1''" by blast
  from mp[OF t6 3] have b: "\<exists>e c. node_at ?d (Sub e ''app-1'') = Some (File c)
         \<and> readMetadata (Some ?d) ''app-1'' = Inr (Some (metadata_of_raw (parseMetadataFile c)))"
    by blast
  note t' = layouts[of "Some ?d" ?d "''app-2''" "''status=done''" "''app-sessions''" ?m "Some ?d1" ?p ?us]
  from mp[OF t'[THEN conjunct2, THEN conjunct2, THEN conjunct2, THEN conjunct2, THEN conjunct1] 5]
  have c: "readMetadata (Some ?d) ''app-2''
       = Inr (Some (metadata_of_raw (parseMetadataFile ''status=done'')))" .
  note t'' = layouts[of "Some ?d" ?d "''app-3''" "''status=done''" "''app-sessions''" ?m "Some ?d1" ?p
      "[(''status'', Some ''spawning'')]"]
  from mp[OF t''[THEN conjunct2, THEN conjunct2, THEN conjunct2, THEN conjunct2, THEN conjunct2,
      THEN conjunct2, THEN conjunct2, THEN conjunct2] 6]
  have "updateMetadata (Some ?d) ''app-3'' [(''status'', Some ''spawning'')] =
          Inr (Some (entries (Some ?d) @
            [(''app-3'', File (serializeMetadata (merge_updates [] [(''status'', Some ''spawning'')])))]))" .
  then have e: "updateMetadata (Some ?d) ''app-3'' [(''status'', Some ''spawning'')]
       = Inr (Some [(''app-sessions'', Dir [(''app-1'', File ''status=working'')]),
                    (''app-2'', File ''status=done''),
                    (''app-3'', File ''status=spawning\<newline>'')])"
    unfolding 8 by (simp only: entries_Some append.simps)
  from 6 have f: "resolveMetadataPath (Some ?d) ''app-3'' = Inr None" by blast
  from mp[OF t[THEN conjunct2, THEN conjunct2, THEN conjunct2, THEN conjunct2, THEN conjunct2,
      THEN conjunct2, THEN conjunct1] 1]
  have "\<forall>q. q \<noteq> Flat ''app-1'' \<longrightarrow> node_at ?d1 q = node_at ?d q"
    by (simp only: entries_Some) blast
  with ne have g: "node_at ?d1 ?p = node_at ?d ?p" by blast
  from 1 2 4 a b c e f g show ?thesis by blast
qed

text \<open>
  The claim as stated fails: the records of the IDs \<^verbatim>\<open>archive\<close> (flat) and \<^verbatim>\<open>app-9\<close> (in a
  subdirectory whose name starts with a dot) are found by \<^verbatim>\<open>readMetadata\<close> and are not
  listed, and \<^verbatim>\<open>updateMetadata\<close> on a record of a project subdirectory writes there, not
  to the flat location.
\<close>

theorem layouts_counterexample:
  "listMetadata (Some [(''archive'', File ''status=working''),
                       (''.old-sessions'', Dir [(''app-9'', File ''status=done'')]),
                       (''app-sessions'', Dir [(''app-1'', File ''status=working'')])])
     = [''app-1'']
   \<and> readMetadata (Some [(''archive'', File ''status=working''),
                       (''.old-sessions'', Dir [(''app-9'', File ''status=done'')]),
                       (''app-sessions'', Dir [(''app-1'', File ''status=working'')])]) ''archive''
     = Inr (Some \<lparr> worktree = [], branch = [], status = ''working'', issue = None, pr = None,
            summary = None, project = None, createdAt = None, runtimeHandle = None \<rparr>)
   \<and> readMetadata (Some [(''archive'', File ''status=working''),
                       (''.old-sessions'', Dir [(''app-9'', File ''status=done'')]),
                       (''app-sessions'', Dir [(''app-1'', File ''status=working'')])]) ''app-9''
     = Inr (Some \<lparr> worktree = [], branch = [], status = ''done'', issue = None, pr = None,
            summary = None, project = None, createdAt = None, runtimeHandle = None \<rparr>)
   \<and> updateMetadata (Some [(''archive'', File ''status=working''),
                       (''.old-sessions'', Dir [(''app-9'', File ''status=done'')]),
                       (''app-sessions'', Dir [(''app-1'', File ''status=working'')])]) ''app-1''
       [(''status'', Some ''merged'')]
     = Inr (Some [(''archive'', File ''status=working''),
                  (''.old-sessions'', Dir [(''app-9'', File ''status=done'')]),
                  (''app-sessions'', Dir [(''app-1'', File ''status=merged\<newline>'')])])"
  by code_simp

section \<open>C8: the record format\<close>

text \<open>
  C8. A record file is read line by line (\<^const>\<open>parseMetadataFile\<close> is a total function, so
  no content makes it fail). A further line that is blank, that starts with \<^verbatim>\<open>#\<close> (after
  trimming), that has no \<^verbatim>\<open>=\<close> or that has an empty key leaves the parsed record as it
  is. A further line \<^verbatim>\<open>key=value\<close> sets the key to the value, where the value is the
  whole rest of the line after the first \<^verbatim>\<open>=\<close> and may itself contain \<^verbatim>\<open>=\<close>. What
  \<^const>\<open>serializeMetadata\<close> writes reads back with every field of empty value left out and
  every other field as it was.
\<close>

theorem record_format:
  assumes "CHR 0x0A \<notin> set l"
  shows "(trim l = [] \<or> startsWith (trim l) ''#'' \<or> CHR ''='' \<notin> set l
            \<or> trim (takeWhile (\<lambda>c. c \<noteq> CHR ''='') (trim l)) = []
          \<longrightarrow> parseMetadataFile (c @ CHR 0x0A # l) = parseMetadataFile c)
       \<and> (clean_key k \<and> clean_value v \<longrightarrow>
            parseMetadataFile (c @ CHR 0x0A # k @ ''='' @ v) = AList.update k v (parseMetadataFile c))
       \<and> (clean_obj ob \<longrightarrow>
            obj_get (parseMetadataFile (serializeMetadata ob)) k' = nonempty (obj_get ob k'))"
proof (intro conjI impI)
  assume "trim l = [] \<or> startsWith (trim l) ''#'' \<or> CHR ''='' \<notin> set l
            \<or> trim (takeWhile (\<lambda>c. c \<noteq> CHR ''='') (trim l)) = []"
  then have "parse_line (parseMetadataFile c) l = parseMetadataFile c" by (rule parse_line_skip)
  with assms show "parseMetadataFile (c @ CHR 0x0A # l) = parseMetadataFile c"
    by (simp add: parse_append_line)
next
  assume kv: "clean_key k \<and> clean_value v"
  then have "CHR 0x0A \<notin> set (k @ CHR ''='' # v)" using kv_no_nl by blast
  then have "parseMetadataFile (c @ CHR 0x0A # k @ CHR ''='' # v)
             = parse_line (parseMetadataFile c) (k @ CHR ''='' # v)"
    by (rule parse_append_line)
  with kv show "parseMetadataFile (c @ CHR 0x0A # k @ ''='' @ v) = AList.update k v (parseMetadataFile c)"
    by (simp add: parse_line_kv)
next
  assume "clean_obj ob"
  then show "obj_get (parseMetadataFile (serializeMetadata ob)) k' = nonempty (obj_get ob k')"
    by (simp add: obj_get_def parse_serialize)
qed

text \<open>The theorem at an indented comment line, at a pull request URL with \<^verbatim>\<open>=\<close> in its
  query, and at a record with an empty pr.\<close>

theorem record_format_witness:
  "CHR 0x0A \<notin> set ''  # a comment''
   \<and> startsWith (trim ''  # a comment'') ''#''
   \<and> parseMetadataFile (''branch=main'' @ CHR 0x0A # ''  # a comment'') = parseMetadataFile ''branch=main''
   \<and> clean_key ''pr'' \<and> clean_value ''https://x/pull/42?a=b&c=d''
   \<and> parseMetadataFile (''branch=main'' @ CHR 0x0A # ''pr'' @ ''='' @ ''https://x/pull/42?a=b&c=d'')
       = AList.update ''pr'' ''https://x/pull/42?a=b&c=d'' (parseMetadataFile ''branch=main'')
   \<and> clean_obj [(''branch'', ''main''), (''pr'', [])]
   \<and> obj_get (parseMetadataFile (serializeMetadata [(''branch'', ''main''), (''pr'', [])])) ''pr''
       = nonempty (obj_get [(''branch'', ''main''), (''pr'', [])] ''pr'')"
proof -
  have 1: "CHR 0x0A \<notin> set ''  # a comment''" by simp
  have 2: "startsWith (trim ''  # a comment'') ''#''" by code_simp
  have 3: "clean_key ''pr'' \<and> clean_value ''https://x/pull/42?a=b&c=d''"
    by (simp add: clean_key_def clean_value_def trimmed_def isWhiteSpace_def)
  have 4: "clean_obj [(''branch'', ''main''), (''pr'', [])]"
    by (simp add: clean_obj_def clean_key_def clean_value_def trimmed_def isWhiteSpace_def)
  from record_format[OF 1, of "''branch=main''" "''pr''" "''https://x/pull/42?a=b&c=d''"
      "[(''branch'', ''main''), (''pr'', [])]" "''pr''"] 1 2 3 4
  show ?thesis by simp
qed

section \<open>C9: terminal statuses\<close>




section \<open>C10: defaults on read\<close>

text \<open>
  C10. When the file of a record has no status, worktree or branch field,
  \<^verbatim>\<open>readMetadata\<close> still returns a record: its status is the string \<^verbatim>\<open>unknown\<close>, its
  worktree and branch are empty strings. A record that \<^verbatim>\<open>reserveSessionId\<close> has just
  created (an empty file) reads back with status \<^verbatim>\<open>unknown\<close>, empty worktree and
  branch, and no other field.
\<close>

theorem read_defaults:
  "(readMetadataRaw s sid = Inr (Some raw) \<longrightarrow>
      (\<exists>m. readMetadata s sid = Inr (Some m)
         \<and> (obj_get raw ''status'' = None \<longrightarrow> status m = ''unknown'')
         \<and> (obj_get raw ''worktree'' = None \<longrightarrow> worktree m = [])
         \<and> (obj_get raw ''branch'' = None \<longrightarrow> branch m = [])))
   \<and> (reserveSessionId t tid = Inr (t', True) \<longrightarrow>
        readMetadata t' tid = Inr (Some
          \<lparr> worktree = [], branch = [], status = ''unknown'', issue = None, pr = None,
            summary = None, project = None, createdAt = None, runtimeHandle = None \<rparr>))"
proof (intro conjI impI)
  assume r: "readMetadataRaw s sid = Inr (Some raw)"
  then have "readMetadata s sid = Inr (Some (metadata_of_raw raw))"
    by (auto simp: readMetadataRaw_def readMetadata_def split: sum.splits option.splits)
  then show "\<exists>m. readMetadata s sid = Inr (Some m)
         \<and> (obj_get raw ''status'' = None \<longrightarrow> status m = ''unknown'')
         \<and> (obj_get raw ''worktree'' = None \<longrightarrow> worktree m = [])
         \<and> (obj_get raw ''branch'' = None \<longrightarrow> branch m = [])"
    by (simp add: metadata_of_raw_def nullish_def)
next
  assume r: "reserveSessionId t tid = Inr (t', True)"
  then have v: "VALID_SESSION_ID tid"
    by (auto simp: reserveSessionId_def metadataPath_def validateSessionId_def split: if_splits)
  with r have "open_excl (mkdirSync t) tid = (t', True)" by (simp add: reserve_valid)
  then have "map_of (entries t) tid = None" and "t' = Some (entries t @ [(tid, File [])])"
    and "\<not> name_too_long tid"
    by (auto simp: open_excl_mkdirSync split: if_splits)
  with v show "readMetadata t' tid = Inr (Some
          \<lparr> worktree = [], branch = [], status = ''unknown'', issue = None, pr = None,
            summary = None, project = None, createdAt = None, runtimeHandle = None \<rparr>)"
    by (simp add: read_after_create metadata_of_raw_Nil)
qed

text \<open>The theorem at a file that holds a branch only, and at a fresh reservation.\<close>

theorem read_defaults_witness:
  "readMetadataRaw (Some [(''app-1'', File ''branch=main'')]) ''app-1'' = Inr (Some [(''branch'', ''main'')])
   \<and> obj_get [(''branch'', ''main'')] ''status'' = None
   \<and> obj_get [(''branch'', ''main'')] ''worktree'' = None
   \<and> (\<exists>m. readMetadata (Some [(''app-1'', File ''branch=main'')]) ''app-1'' = Inr (Some m)
         \<and> status m = ''unknown'' \<and> worktree m = [])
   \<and> reserveSessionId (Some [(''app-1'', File ''branch=main'')]) ''app-2''
       = Inr (Some [(''app-1'', File ''branch=main''), (''app-2'', File [])], True)
   \<and> readMetadata (Some [(''app-1'', File ''branch=main''), (''app-2'', File [])]) ''app-2''
       = Inr (Some
          \<lparr> worktree = [], branch = [], status = ''unknown'', issue = None, pr = None,
            summary = None, project = None, createdAt = None, runtimeHandle = None \<rparr>)"
proof -
  have 1: "readMetadataRaw (Some [(''app-1'', File ''branch=main'')]) ''app-1'' = Inr (Some [(''branch'', ''main'')])"
    by code_simp
  have 2: "obj_get [(''branch'', ''main'')] ''status'' = None \<and> obj_get [(''branch'', ''main'')] ''worktree'' = None"
    by (simp add: obj_get_def)
  have 3: "reserveSessionId (Some [(''app-1'', File ''branch=main'')]) ''app-2''
       = Inr (Some [(''app-1'', File ''branch=main''), (''app-2'', File [])], True)"
    by code_simp
  from read_defaults[of "Some [(''app-1'', File ''branch=main'')]" "''app-1''" "[(''branch'', ''main'')]"
      "Some [(''app-1'', File ''branch=main'')]" "''app-2''"
      "Some [(''app-1'', File ''branch=main''), (''app-2'', File [])]"] 1 2 3
  show ?thesis by auto
qed

end
